theory Spec2Isabelle
  imports Main "HOL-Library.Word"
begin

unbundle bit_operations_syntax

section \<open>Machine types, result codes and flags\<close>

text \<open>
  The query pool code (vk_query.cpp) works on fixed-width unsigned integers.  They are
  modelled as words, so that every \<open>+\<close>, \<open>*\<close> and cast wraps exactly as in the C++.
  \<open>size_t\<close> is taken at 64 bits (the 64-bit build of the driver).
\<close>

type_synonym uint32_t = "32 word"
type_synonym uint64_t = "64 word"
type_synonym size_t = "64 word"
type_synonym VkDeviceSize = "64 word"
type_synonym VkQueryResultFlags = "32 word"

datatype VkResult =
    VK_SUCCESS
  | VK_NOT_READY
  | VK_ERROR_OUT_OF_HOST_MEMORY
  | VK_ERROR_OUT_OF_DEVICE_MEMORY
  | VK_ERROR_INITIALIZATION_FAILED

datatype PalResult =
    PalSuccess
  | PalNotReady
  | PalErrorUnknown
  | PalErrorOutOfMemory
  | PalErrorOutOfGpuMemory

datatype VkQueryType =
    VK_QUERY_TYPE_OCCLUSION
  | VK_QUERY_TYPE_PIPELINE_STATISTICS
  | VK_QUERY_TYPE_TIMESTAMP
  | VK_QUERY_TYPE_TRANSFORM_FEEDBACK_STREAM_EXT

text \<open>
  The bits of \<open>VkQueryResultFlags\<close>.  The header that declares them
  (include/khronos/vulkan.h) is not among the sources; the values are those of the
  Vulkan API.  The code only ever tests \<open>(flags & BIT) != 0\<close>.
\<close>

definition VK_QUERY_RESULT_64_BIT :: VkQueryResultFlags where
  "VK_QUERY_RESULT_64_BIT = 0x1"

definition VK_QUERY_RESULT_WAIT_BIT :: VkQueryResultFlags where
  "VK_QUERY_RESULT_WAIT_BIT = 0x2"

definition VK_QUERY_RESULT_WITH_AVAILABILITY_BIT :: VkQueryResultFlags where
  "VK_QUERY_RESULT_WITH_AVAILABILITY_BIT = 0x4"

definition VK_QUERY_RESULT_PARTIAL_BIT :: VkQueryResultFlags where
  "VK_QUERY_RESULT_PARTIAL_BIT = 0x8"

section \<open>The caller's destination buffer\<close>

text \<open>
  \<open>GetResults\<close> writes through typed pointers into \<open>pData\<close>.  Each such assignment is
  recorded as a store: the byte offset from \<open>pData\<close> and the 32-bit or 64-bit value
  stored there.  A call returns the list of its stores in program order; the
  destination memory after the call is the memory before it with the stores applied.
  Offsets are natural numbers, so a store beyond \<open>dataSize\<close> stays visible in the model.
\<close>

datatype store = Store32 nat uint32_t | Store64 nat uint64_t

fun store_offset :: "store \<Rightarrow> nat" where
  "store_offset (Store32 off v) = off"
| "store_offset (Store64 off v) = off"

fun store_width :: "store \<Rightarrow> nat" where
  "store_width (Store32 off v) = 4"
| "store_width (Store64 off v) = 8"

definition footprint :: "store \<Rightarrow> nat set" where
  "footprint s = {store_offset s ..< store_offset s + store_width s}"

text \<open>Byte \<open>k\<close> of a value, least significant first (the host is little-endian).\<close>

definition byte_of :: "'a::len word \<Rightarrow> nat \<Rightarrow> 8 word" where
  "byte_of v k = ucast (drop_bit (8 * k) v)"

type_synonym memory = "nat \<Rightarrow> 8 word"

fun apply_store :: "store \<Rightarrow> memory \<Rightarrow> memory" where
  "apply_store (Store32 off v) mem =
     (\<lambda>a. if off \<le> a \<and> a < off + 4 then byte_of v (a - off) else mem a)"
| "apply_store (Store64 off v) mem =
     (\<lambda>a. if off \<le> a \<and> a < off + 8 then byte_of v (a - off) else mem a)"

definition apply_stores :: "store list \<Rightarrow> memory \<Rightarrow> memory" where
  "apply_stores ws mem = fold apply_store ws mem"

section \<open>Timestamp query pool: GetResults\<close>

text \<open>
  The pool's memory is written by the GPU while the CPU reads it (the reads go through
  a \<open>volatile\<close> pointer).  It is modelled as \<open>src t off\<close>: the 64-bit word that the
  \<open>t\<close>-th read of the call observes at byte offset \<open>off\<close> of the mapped memory.  Every
  read advances the clock by one.  A memory that nothing overwrites is constant in \<open>t\<close>.

  \<open>TimestampNotReady\<close> is declared in vk_query.h, which is not among the sources; it is
  a parameter \<open>notReady\<close> of every definition that uses it.
\<close>

type_synonym volatile_memory = "nat \<Rightarrow> nat \<Rightarrow> uint64_t"

text \<open>
  The polling loop
  \<^verbatim>\<open>while (!ready) { value = *pTimestamp; ready = (value != TimestampNotReady); }\<close>
  on the state \<open>(value, ready, clock)\<close>.  It has no bound: not returning is \<open>None\<close>.
\<close>

partial_function (option) wait_loop ::
  "volatile_memory \<Rightarrow> uint64_t \<Rightarrow> nat \<Rightarrow> uint64_t \<times> bool \<times> nat \<Rightarrow> (uint64_t \<times> bool \<times> nat) option"
where
  "wait_loop src notReady off s =
     (case s of (val, ready, t) \<Rightarrow>
        if \<not> ready
        then wait_loop src notReady off (src t off, src t off \<noteq> notReady, Suc t)
        else Some s)"

text \<open>Lines 565-576: the first read of the slot, then the optional wait.\<close>

definition read_timestamp ::
  "volatile_memory \<Rightarrow> uint64_t \<Rightarrow> VkQueryResultFlags \<Rightarrow> nat \<Rightarrow> nat \<Rightarrow> (uint64_t \<times> bool \<times> nat) option"
where
  "read_timestamp src notReady flags off t =
     (let val = src t off;
          ready = (val \<noteq> notReady)
      in if flags AND VK_QUERY_RESULT_WAIT_BIT \<noteq> 0
         then wait_loop src notReady off (val, ready, Suc t)
         else Some (val, ready, Suc t))"

text \<open>Lines 583-610: the stores of one slot, \<open>off\<close> being the offset of \<open>pSlotData\<close>.\<close>

definition write_slot :: "VkQueryResultFlags \<Rightarrow> nat \<Rightarrow> uint64_t \<Rightarrow> bool \<Rightarrow> store list" where
  "write_slot flags off val ready =
     (if flags AND VK_QUERY_RESULT_64_BIT \<noteq> 0
      then (if ready then [Store64 off val] else []) @
           (if flags AND VK_QUERY_RESULT_WITH_AVAILABILITY_BIT \<noteq> 0
            then [Store64 (off + 8) (if ready then 1 else 0)] else [])
      else (if ready then [Store32 off (ucast val)] else []) @
           (if flags AND VK_QUERY_RESULT_WITH_AVAILABILITY_BIT \<noteq> 0
            then [Store32 (off + 4) (if ready then 1 else 0)] else []))"

definition queryValueSize :: "VkQueryResultFlags \<Rightarrow> size_t" where
  "queryValueSize flags = (if flags AND VK_QUERY_RESULT_64_BIT \<noteq> 0 then 8 else 4)"

definition querySlotSize :: "VkQueryResultFlags \<Rightarrow> size_t" where
  "querySlotSize flags =
     queryValueSize flags *
     (if flags AND VK_QUERY_RESULT_WITH_AVAILABILITY_BIT \<noteq> 0 then 2 else 1)"

text \<open>Lines 552-553: the clamp, with its cast of the quotient to \<open>uint32_t\<close>.\<close>

definition clampQueryCount ::
  "uint32_t \<Rightarrow> size_t \<Rightarrow> VkDeviceSize \<Rightarrow> VkQueryResultFlags \<Rightarrow> uint32_t" where
  "clampQueryCount queryCount dataSize stride flags =
     min queryCount (ucast (dataSize div max (querySlotSize flags) stride))"

text \<open>
  \<open>srcSlotOffset\<close> is computed in \<open>uint32_t\<close>; \<open>dstSlot * stride\<close> in \<open>VkDeviceSize\<close>.
  The loop counter \<open>dstSlot\<close> stays below \<open>queryCount\<close>, so \<open>++dstSlot\<close> never wraps and
  the counter is a natural number here.
\<close>

definition srcSlotOffset :: "uint32_t \<Rightarrow> uint32_t \<Rightarrow> nat \<Rightarrow> nat" where
  "srcSlotOffset slotSize startQuery dstSlot = unat ((of_nat dstSlot + startQuery) * slotSize)"

definition slotDataOffset :: "VkDeviceSize \<Rightarrow> nat \<Rightarrow> nat" where
  "slotDataOffset stride dstSlot = unat (of_nat dstSlot * stride)"

record results_state =
  allReady :: bool
  writes :: "store list"
  clock :: nat

function ts_loop ::
  "volatile_memory \<Rightarrow> uint64_t \<Rightarrow> uint32_t \<Rightarrow> uint32_t \<Rightarrow> uint32_t \<Rightarrow> VkDeviceSize \<Rightarrow>
   VkQueryResultFlags \<Rightarrow> nat \<Rightarrow> results_state \<Rightarrow> results_state option"
where
  "ts_loop src notReady slotSize startQuery queryCount stride flags dstSlot st =
     (if dstSlot < unat queryCount
      then (case read_timestamp src notReady flags
                   (srcSlotOffset slotSize startQuery dstSlot) (clock st) of
              None \<Rightarrow> None
            | Some (val, ready, t') \<Rightarrow>
                ts_loop src notReady slotSize startQuery queryCount stride flags (Suc dstSlot)
                  \<lparr>allReady = (allReady st \<and> ready),
                   writes = writes st @ write_slot flags (slotDataOffset stride dstSlot) val ready,
                   clock = t'\<rparr>)
      else Some st)"
  by pat_completeness auto
termination
  by (relation "measure (\<lambda>(src, notReady, slotSize, startQuery, queryCount, stride, flags, dstSlot, st).
        unat queryCount - dstSlot)") auto

text \<open>
  \<open>TimestampQueryPool::GetResults\<close>.  The result is the status, the stores into \<open>pData\<close>
  and the clock after the call; \<open>None\<close> when the call never returns.
\<close>

definition TimestampQueryPool_GetResults ::
  "volatile_memory \<Rightarrow> uint64_t \<Rightarrow> uint32_t \<Rightarrow> uint32_t \<Rightarrow> uint32_t \<Rightarrow> size_t \<Rightarrow> VkDeviceSize \<Rightarrow>
   VkQueryResultFlags \<Rightarrow> nat \<Rightarrow> (VkResult \<times> store list \<times> nat) option"
where
  "TimestampQueryPool_GetResults src notReady slotSize startQuery queryCount dataSize stride flags t =
     (if queryCount > 0
      then (case ts_loop src notReady slotSize startQuery
                   (clampQueryCount queryCount dataSize stride flags) stride flags 0
                   \<lparr>allReady = True, writes = [], clock = t\<rparr> of
              None \<Rightarrow> None
            | Some st \<Rightarrow>
                Some (if allReady st then VK_SUCCESS else VK_NOT_READY, writes st, clock st))
      else Some (VK_SUCCESS, [], t))"

text \<open>
  The word that a call started at clock \<open>t\<close> observes for its \<open>j\<close>-th examined slot when
  it does not wait: the slots are read once each, in order.
\<close>

definition observed :: "volatile_memory \<Rightarrow> nat \<Rightarrow> uint32_t \<Rightarrow> uint32_t \<Rightarrow> nat \<Rightarrow> uint64_t" where
  "observed src t slotSize startQuery j = src (t + j) (srcSlotOffset slotSize startQuery j)"

text \<open>
  In general the word that decides slot \<open>j\<close> is the one found by the last read of that
  slot; \<open>rd j\<close> is the clock of that read.
\<close>

definition slot_value :: "volatile_memory \<Rightarrow> (nat \<Rightarrow> nat) \<Rightarrow> uint32_t \<Rightarrow> uint32_t \<Rightarrow> nat \<Rightarrow> uint64_t" where
  "slot_value src rd slotSize startQuery j = src (rd j) (srcSlotOffset slotSize startQuery j)"

declare ts_loop.simps [simp del]

section \<open>Timestamp query pool: Reset\<close>

text \<open>
  The fields of \<open>TimestampQueryPool\<close> that \<open>Reset\<close> reads.  Both are \<open>uint32_t\<close>, as the
  values that \<open>Create\<close> stores in them (lines 363 and 374).
\<close>

record TimestampQueryPool =
  m_entryCount :: uint32_t
  m_slotSize :: uint32_t

text \<open>
  Lines 649-652: \<open>pQueryData[idx] = TimestampNotReady\<close> for \<open>idx < queryDataSize\<close>, where
  \<open>base\<close> is the byte offset of \<open>pQueryData\<close> in the mapped memory.
\<close>

function reset_fill :: "uint64_t \<Rightarrow> nat \<Rightarrow> uint32_t \<Rightarrow> nat \<Rightarrow> memory \<Rightarrow> memory" where
  "reset_fill notReady base queryDataSize idx mem =
     (if idx < unat queryDataSize
      then reset_fill notReady base queryDataSize (Suc idx)
             (apply_store (Store64 (base + 8 * idx) notReady) mem)
      else mem)"
  by pat_completeness auto
termination
  by (relation "measure (\<lambda>(notReady, base, queryDataSize, idx, mem). unat queryDataSize - idx)") auto

declare reset_fill.simps [simp del]

text \<open>
  Lines 641-659: the loop over the device replicas.  \<open>mapResult deviceIdx\<close> is the result
  of \<open>m_internalMem.Map(deviceIdx, ...)\<close>.  The pool has one allocation, \<open>m_internalMem\<close>:
  \<open>Create\<close> (lines 389-419) allocates it once, for a single device on that device and for
  several devices as one shareable allocation that every replica aliases.  The mapped
  address of every replica therefore addresses the same bytes, \<open>mem\<close>, and a store made
  through the mapping of one replica changes what every replica holds.
\<close>

function reset_devices ::
  "uint64_t \<Rightarrow> nat \<Rightarrow> (nat \<Rightarrow> PalResult) \<Rightarrow> nat \<Rightarrow> uint32_t \<Rightarrow> nat \<Rightarrow> memory \<Rightarrow> memory"
where
  "reset_devices notReady numPalDevices mapResult base queryDataSize deviceIdx mem =
     (if deviceIdx < numPalDevices
      then reset_devices notReady numPalDevices mapResult base queryDataSize (Suc deviceIdx)
             (if mapResult deviceIdx = PalSuccess
              then reset_fill notReady base queryDataSize 0 mem
              else mem)
      else mem)"
  by pat_completeness auto
termination
  by (relation "measure (\<lambda>(notReady, numPalDevices, mapResult, base, queryDataSize, deviceIdx, mem).
        numPalDevices - deviceIdx)") auto

declare reset_devices.simps [simp del]

text \<open>
  \<open>TimestampQueryPool::Reset\<close>.  \<open>m_slotSize * queryCount\<close> and \<open>m_slotSize * startQuery\<close>
  are \<open>uint32_t\<close> products; the division by \<open>sizeof(uint64_t)\<close> is done in \<open>size_t\<close> and
  the quotient is stored in a \<open>uint32_t\<close>.
\<close>

definition TimestampQueryPool_Reset ::
  "uint64_t \<Rightarrow> TimestampQueryPool \<Rightarrow> nat \<Rightarrow> (nat \<Rightarrow> PalResult) \<Rightarrow> uint32_t \<Rightarrow> uint32_t \<Rightarrow>
   memory \<Rightarrow> memory"
where
  "TimestampQueryPool_Reset notReady pool numPalDevices mapResult startQuery queryCount mem =
     (if startQuery < m_entryCount pool
      then (let queryCount' = min queryCount (m_entryCount pool - startQuery);
                queryDataSize = (ucast ((ucast (m_slotSize pool * queryCount') :: size_t) div 8) :: uint32_t)
            in reset_devices notReady numPalDevices mapResult
                 (unat (m_slotSize pool * startQuery)) queryDataSize 0 mem)
      else mem)"

text \<open>The 64-bit word that a CPU read finds at byte offset \<open>off\<close> of a memory.\<close>

definition read64 :: "memory \<Rightarrow> nat \<Rightarrow> uint64_t" where
  "read64 mem off =
     fold (\<lambda>k w. w OR push_bit (8 * k) (ucast (mem (off + k)))) [0..<8] 0"

section \<open>Hardware-delegating query pool: GetResults\<close>

text \<open>
  \<open>Pal::IQueryPool::GetResults\<close> is the hardware backend, outside this repository.  The
  model passes it the arguments that the code passes and takes its answer as given:
  the PAL result, the contents of the scratch buffer \<open>xfbQueryData\<close> after the call
  (by \<open>uint64_t\<close> index) when \<open>pQueryData\<close> points there, and the stores that the
  backend made into the caller's \<open>pData\<close> when \<open>pQueryData\<close> is \<open>pData\<close>.
\<close>

record pal_GetResults_args =
  pal_flags :: VkQueryResultFlags
  pal_startQuery :: uint32_t
  pal_queryCount :: uint32_t
  pal_dataSize :: size_t
  pal_intoScratch :: bool
  pal_stride :: size_t

record pal_GetResults_answer =
  pal_result :: PalResult
  pal_scratch :: "nat \<Rightarrow> uint64_t"
  pal_stores :: "store list"

definition numXfbQueryDataElems :: "VkQueryResultFlags \<Rightarrow> uint32_t" where
  "numXfbQueryDataElems flags =
     (if flags AND VK_QUERY_RESULT_WITH_AVAILABILITY_BIT \<noteq> 0 then 3 else 2)"

text \<open>
  Lines 273-307: the stores of one slot.  \<open>pXfbQueryData k\<close> is \<open>pXfbQueryData[k]\<close> and
  \<open>off\<close> the offset of the current \<open>pData\<close>.
\<close>

definition xfb_write ::
  "VkQueryResultFlags \<Rightarrow> VkResult \<Rightarrow> (nat \<Rightarrow> uint64_t) \<Rightarrow> nat \<Rightarrow> store list" where
  "xfb_write flags result pXfbQueryData off =
     (if flags AND VK_QUERY_RESULT_64_BIT = 0
      then (if result = VK_SUCCESS \<or> flags AND VK_QUERY_RESULT_PARTIAL_BIT \<noteq> 0
            then [Store32 off (ucast (pXfbQueryData 1)),
                  Store32 (off + 4) (ucast (pXfbQueryData 0))]
            else []) @
           (if flags AND VK_QUERY_RESULT_WITH_AVAILABILITY_BIT \<noteq> 0
            then [Store32 (off + 8) (ucast (pXfbQueryData 2))] else [])
      else (if result = VK_SUCCESS \<or> flags AND VK_QUERY_RESULT_PARTIAL_BIT \<noteq> 0
            then [Store64 off (pXfbQueryData 1),
                  Store64 (off + 8) (pXfbQueryData 0)]
            else []) @
           (if flags AND VK_QUERY_RESULT_WITH_AVAILABILITY_BIT \<noteq> 0
            then [Store64 (off + 16) (pXfbQueryData 2)] else []))"

text \<open>
  Lines 271-310: the loop over the slots.  The state is the offset of \<open>pData\<close>, advanced
  by \<open>stride\<close> after each slot, and the stores made so far.
\<close>

function xfb_loop ::
  "VkQueryResultFlags \<Rightarrow> VkResult \<Rightarrow> (nat \<Rightarrow> uint64_t) \<Rightarrow> uint32_t \<Rightarrow> VkDeviceSize \<Rightarrow>
   nat \<Rightarrow> nat \<times> store list \<Rightarrow> nat \<times> store list"
where
  "xfb_loop flags result xfbQueryData queryCount stride i s =
     (if i < unat queryCount
      then xfb_loop flags result xfbQueryData queryCount stride (Suc i)
             (fst s + unat stride,
              snd s @ xfb_write flags result
                        (\<lambda>k. xfbQueryData (i * unat (numXfbQueryDataElems flags) + k)) (fst s))
      else s)"
  by pat_completeness auto
termination
  by (relation "measure (\<lambda>(flags, result, xfbQueryData, queryCount, stride, i, s).
        unat queryCount - i)") auto

declare xfb_loop.simps [simp del]

text \<open>
  \<open>PalQueryPool::GetResults\<close>.  \<open>PalToVkResult\<close> (vk_conv.h) is not among the sources and
  is a parameter.  The result is the status and the stores into the caller's \<open>pData\<close>.
\<close>

definition PalQueryPool_GetResults ::
  "(PalResult \<Rightarrow> VkResult) \<Rightarrow> (pal_GetResults_args \<Rightarrow> pal_GetResults_answer) \<Rightarrow> VkQueryType \<Rightarrow>
   uint32_t \<Rightarrow> uint32_t \<Rightarrow> size_t \<Rightarrow> VkDeviceSize \<Rightarrow> VkQueryResultFlags \<Rightarrow> VkResult \<times> store list"
where
  "PalQueryPool_GetResults PalToVkResult palGetResults m_queryType startQuery queryCount dataSize stride flags =
     (if queryCount > 0
      then (let xfb = (m_queryType = VK_QUERY_TYPE_TRANSFORM_FEEDBACK_STREAM_EXT);
                queryFlags = (if xfb then flags OR VK_QUERY_RESULT_64_BIT else flags);
                queryDataSize = (if xfb then 8 * ucast (numXfbQueryDataElems flags) * ucast queryCount
                                 else dataSize);
                queryDataStride = (if xfb then 8 * ucast (numXfbQueryDataElems flags) else stride);
                answer = palGetResults
                           \<lparr>pal_flags = queryFlags, pal_startQuery = startQuery,
                            pal_queryCount = queryCount, pal_dataSize = queryDataSize,
                            pal_intoScratch = xfb, pal_stride = queryDataStride\<rparr>;
                result = PalToVkResult (pal_result answer)
            in if xfb \<and> (result = VK_SUCCESS \<or> result = VK_NOT_READY)
               then (result,
                     snd (xfb_loop flags result (pal_scratch answer) queryCount
                            (if stride = 0 then queryDataStride else stride) 0 (0, [])))
               else (result, if xfb then [] else pal_stores answer))
      else (VK_SUCCESS, []))"

text \<open>
  Modelled from the spec: the layout of the backend's stream-output answer, which the
  PAL headers (not among the sources) declare.  "The backend always reports two 64-bit
  fields per slot, {needed, written} order, plus an optional third 64-bit availability
  field": slot \<open>i\<close> occupies the elements \<open>i * n\<close>, \<open>i * n + 1\<close> and, with availability,
  \<open>i * n + 2\<close> of the scratch buffer, \<open>n\<close> being 2 or 3.
\<close>

record xfb_report =
  xfb_needed :: uint64_t
  xfb_written :: uint64_t
  xfb_available :: uint64_t

definition pal_reports :: "VkQueryResultFlags \<Rightarrow> (nat \<Rightarrow> uint64_t) \<Rightarrow> nat \<Rightarrow> xfb_report \<Rightarrow> bool" where
  "pal_reports flags scratch i r \<longleftrightarrow>
     scratch (i * unat (numXfbQueryDataElems flags)) = xfb_needed r \<and>
     scratch (i * unat (numXfbQueryDataElems flags) + 1) = xfb_written r \<and>
     (flags AND VK_QUERY_RESULT_WITH_AVAILABILITY_BIT \<noteq> 0 \<longrightarrow>
        scratch (i * unat (numXfbQueryDataElems flags) + 2) = xfb_available r)"

text \<open>
  The arguments that a stream-output read-back passes to the backend (lines 246-262), and
  the stride by which \<open>pData\<close> advances (line 269).
\<close>

definition xfb_args :: "VkQueryResultFlags \<Rightarrow> uint32_t \<Rightarrow> uint32_t \<Rightarrow> pal_GetResults_args" where
  "xfb_args flags startQuery queryCount =
     \<lparr>pal_flags = flags OR VK_QUERY_RESULT_64_BIT, pal_startQuery = startQuery,
      pal_queryCount = queryCount,
      pal_dataSize = 8 * ucast (numXfbQueryDataElems flags) * ucast queryCount,
      pal_intoScratch = True,
      pal_stride = 8 * ucast (numXfbQueryDataElems flags)\<rparr>"

definition xfb_stride :: "VkQueryResultFlags \<Rightarrow> VkDeviceSize \<Rightarrow> VkDeviceSize" where
  "xfb_stride flags stride = (if stride = 0 then 8 * ucast (numXfbQueryDataElems flags) else stride)"

text \<open>
  The public contract of a stream-output record in the words of the specification:
  the counters in the order (written, needed), then the availability as the last
  element when requested, each element of the width that the caller asked for; the
  counters only when the call succeeded or partial results are allowed.  The natural
  size of a record is the number of its elements times that width.
\<close>

definition spec_put :: "VkQueryResultFlags \<Rightarrow> nat \<Rightarrow> nat \<Rightarrow> uint64_t \<Rightarrow> store" where
  "spec_put flags off k v =
     (if flags AND VK_QUERY_RESULT_64_BIT \<noteq> 0 then Store64 (off + 8 * k) v
      else Store32 (off + 4 * k) (ucast v))"

definition spec_xfb_record :: "VkQueryResultFlags \<Rightarrow> VkResult \<Rightarrow> xfb_report \<Rightarrow> nat \<Rightarrow> store list" where
  "spec_xfb_record flags res r off =
     (if res = VK_SUCCESS \<or> flags AND VK_QUERY_RESULT_PARTIAL_BIT \<noteq> 0
      then [spec_put flags off 0 (xfb_written r), spec_put flags off 1 (xfb_needed r)] else []) @
     (if flags AND VK_QUERY_RESULT_WITH_AVAILABILITY_BIT \<noteq> 0
      then [spec_put flags off 2 (xfb_available r)] else [])"

definition spec_xfb_natural_size :: "VkQueryResultFlags \<Rightarrow> nat" where
  "spec_xfb_natural_size flags =
     (if flags AND VK_QUERY_RESULT_WITH_AVAILABILITY_BIT \<noteq> 0 then 3 else 2) *
     (if flags AND VK_QUERY_RESULT_64_BIT \<noteq> 0 then 8 else 4)"

text \<open>
  A 32-bit output of a 64-bit value in the words of the specification: the value modulo
  \<open>2^32\<close>.
\<close>

definition spec_wrap32 :: "uint64_t \<Rightarrow> uint32_t" where
  "spec_wrap32 v = word_of_nat (unat v mod 2 ^ 32)"

section \<open>Creation and destruction\<close>

text \<open>
  The resources that a pool acquires from its collaborators: the host block from
  \<open>AllocApiObject\<close>, one backend object per device replica, and the GPU memory bound to
  them.  The calls made to the collaborators are logged in order.
\<close>

datatype call =
    CallAllocApiObject
  | CallCreateQueryPool nat
  | CallAllocAndBindGpuMem
  | CallPlacementNew
  | CallDestroyQueryPool nat
  | CallFreeGpuMem
  | CallDestructor
  | CallFreeApiObject

record world =
  hostBlock :: bool
  palObjects :: "nat set"
  gpuMem :: bool
  calls :: "call list"

definition initial_world :: world where
  "initial_world = \<lparr>hostBlock = False, palObjects = {}, gpuMem = False, calls = []\<rparr>"

text \<open>
  The outcomes of the collaborators during one \<open>PalQueryPool::Create\<close>.

  Modelled from the spec: \<open>Device::CreateQueryPool\<close> and \<open>AllocAndBindGpuMem\<close> belong to
  the backend and the memory manager, which are not among the sources.  "Construct one
  backend object per replica in place": a call that returns success has constructed the
  object and stored its address in \<open>pPalQueryPools[deviceIdx]\<close>; a call that fails
  constructs nothing and leaves the entry null.  "Allocate and bind GPU memory across
  all replicas": the memory is held after the call exactly when the call succeeds.
\<close>

record create_env =
  NumPalDevices :: nat
  GetQueryPoolSize_result :: PalResult
  AllocApiObject_ok :: bool
  CreateQueryPool_result :: "nat \<Rightarrow> PalResult"
  AllocAndBindGpuMem_result :: VkResult

definition do_CreateQueryPool :: "nat \<Rightarrow> PalResult \<Rightarrow> world \<Rightarrow> world" where
  "do_CreateQueryPool deviceIdx r w =
     w\<lparr>palObjects := (if r = PalSuccess then insert deviceIdx (palObjects w) else palObjects w),
       calls := calls w @ [CallCreateQueryPool deviceIdx]\<rparr>"

definition do_DestroyQueryPool :: "nat \<Rightarrow> world \<Rightarrow> world" where
  "do_DestroyQueryPool deviceIdx w =
     w\<lparr>palObjects := palObjects w - {deviceIdx},
       calls := calls w @ [CallDestroyQueryPool deviceIdx]\<rparr>"

definition do_AllocAndBindGpuMem :: "VkResult \<Rightarrow> world \<Rightarrow> world" where
  "do_AllocAndBindGpuMem r w =
     w\<lparr>gpuMem := (r = VK_SUCCESS \<or> gpuMem w), calls := calls w @ [CallAllocAndBindGpuMem]\<rparr>"

definition do_FreeGpuMem :: "world \<Rightarrow> world" where
  "do_FreeGpuMem w = w\<lparr>gpuMem := False, calls := calls w @ [CallFreeGpuMem]\<rparr>"

definition do_AllocApiObject :: "bool \<Rightarrow> world \<Rightarrow> world" where
  "do_AllocApiObject ok w =
     w\<lparr>hostBlock := (ok \<or> hostBlock w), calls := calls w @ [CallAllocApiObject]\<rparr>"

definition do_FreeApiObject :: "world \<Rightarrow> world" where
  "do_FreeApiObject w = w\<lparr>hostBlock := False, calls := calls w @ [CallFreeApiObject]\<rparr>"

definition do_call :: "call \<Rightarrow> world \<Rightarrow> world" where
  "do_call c w = w\<lparr>calls := calls w @ [c]\<rparr>"

text \<open>
  Lines 127-137: the loop that constructs the backend objects.  \<open>pPalQueryPools\<close> is the
  local array of pointers (all null at first); an entry is \<open>True\<close> when it is not null.
\<close>

record create_state =
  st_palResult :: PalResult
  st_result :: VkResult
  st_pPalQueryPools :: "nat \<Rightarrow> bool"
  st_world :: world

function create_loop ::
  "(PalResult \<Rightarrow> VkResult) \<Rightarrow> create_env \<Rightarrow> nat \<Rightarrow> create_state \<Rightarrow> create_state" where
  "create_loop PalToVkResult env deviceIdx s =
     (if deviceIdx < NumPalDevices env \<and> st_palResult s = PalSuccess
      then (let r = CreateQueryPool_result env deviceIdx
            in create_loop PalToVkResult env (Suc deviceIdx)
                 \<lparr>st_palResult = r,
                  st_result = PalToVkResult r,
                  st_pPalQueryPools = (if r = PalSuccess then (st_pPalQueryPools s)(deviceIdx := True)
                                    else st_pPalQueryPools s),
                  st_world = do_CreateQueryPool deviceIdx r (st_world s)\<rparr>)
      else s)"
  by pat_completeness auto
termination
  by (relation "measure (\<lambda>(PalToVkResult, env, deviceIdx, s). NumPalDevices env - deviceIdx)") auto

declare create_loop.simps [simp del]

text \<open>
  Lines 169-176 and 192-198: destroy every backend object whose pointer is not null.
\<close>

function destroy_loop :: "nat \<Rightarrow> (nat \<Rightarrow> bool) \<Rightarrow> nat \<Rightarrow> world \<Rightarrow> world" where
  "destroy_loop numPalDevices pools deviceIdx w =
     (if deviceIdx < numPalDevices
      then destroy_loop numPalDevices pools (Suc deviceIdx)
             (if pools deviceIdx then do_DestroyQueryPool deviceIdx w else w)
      else w)"
  by pat_completeness auto
termination
  by (relation "measure (\<lambda>(numPalDevices, pools, deviceIdx, w). numPalDevices - deviceIdx)") auto

declare destroy_loop.simps [simp del]

record PalQueryPool =
  m_queryType :: VkQueryType
  m_pPalQueryPool :: "nat \<Rightarrow> bool"

text \<open>
  \<open>PalQueryPool::Create\<close>, for a request of kind \<open>queryType\<close>.  The result is the status,
  the pool object when one is constructed, and the world after the call.
\<close>

definition PalQueryPool_Create ::
  "(PalResult \<Rightarrow> VkResult) \<Rightarrow> create_env \<Rightarrow> VkQueryType \<Rightarrow> world \<Rightarrow>
   VkResult \<times> PalQueryPool option \<times> world"
where
  "PalQueryPool_Create PalToVkResult env queryType w =
     (let w1 = do_AllocApiObject (AllocApiObject_ok env) w
      in if \<not> AllocApiObject_ok env
         then (VK_ERROR_OUT_OF_HOST_MEMORY, None, w1)
         else (let s = create_loop PalToVkResult env 0
                         \<lparr>st_palResult = GetQueryPoolSize_result env,
                          st_result = VK_SUCCESS,
                          st_pPalQueryPools = (\<lambda>i. False),
                          st_world = w1\<rparr>;
                   r2 = (if st_result s = VK_SUCCESS then AllocAndBindGpuMem_result env else st_result s);
                   w2 = (if st_result s = VK_SUCCESS
                         then do_AllocAndBindGpuMem (AllocAndBindGpuMem_result env) (st_world s)
                         else st_world s)
               in if r2 = VK_SUCCESS
                  then (r2,
                        Some \<lparr>m_queryType = queryType, m_pPalQueryPool = st_pPalQueryPools s\<rparr>,
                        do_call CallPlacementNew w2)
                  else (r2, None,
                        do_FreeApiObject (destroy_loop (NumPalDevices env) (st_pPalQueryPools s) 0 w2))))"

text \<open>\<open>PalQueryPool::Destroy\<close> and \<open>TimestampQueryPool::Destroy\<close>.\<close>

definition PalQueryPool_Destroy :: "nat \<Rightarrow> PalQueryPool \<Rightarrow> world \<Rightarrow> VkResult \<times> world" where
  "PalQueryPool_Destroy numPalDevices pool w =
     (VK_SUCCESS,
      do_FreeApiObject (do_call CallDestructor (do_FreeGpuMem
        (destroy_loop numPalDevices (m_pPalQueryPool pool) 0 w))))"

definition TimestampQueryPool_Destroy :: "world \<Rightarrow> VkResult \<times> world" where
  "TimestampQueryPool_Destroy w =
     (VK_SUCCESS, do_FreeApiObject (do_call CallDestructor (do_FreeGpuMem w)))"

datatype QueryPool = Pal PalQueryPool | Timestamp TimestampQueryPool

fun QueryPool_Destroy :: "nat \<Rightarrow> QueryPool \<Rightarrow> world \<Rightarrow> VkResult \<times> world" where
  "QueryPool_Destroy numPalDevices (Pal pool) w = PalQueryPool_Destroy numPalDevices pool w"
| "QueryPool_Destroy numPalDevices (Timestamp pool) w = TimestampQueryPool_Destroy w"

text \<open>
  The entry point \<open>vkDestroyQueryPool\<close>.  A \<open>VkQueryPool\<close> is a 64-bit handle;
  \<open>ObjectFromHandle\<close> (vk_object.h, not among the sources) is a parameter.
\<close>

definition VK_NULL_HANDLE :: uint64_t where
  "VK_NULL_HANDLE = 0"

definition vkDestroyQueryPool ::
  "nat \<Rightarrow> (uint64_t \<Rightarrow> QueryPool) \<Rightarrow> uint64_t \<Rightarrow> world \<Rightarrow> world" where
  "vkDestroyQueryPool numPalDevices ObjectFromHandle queryPool w =
     (if queryPool \<noteq> VK_NULL_HANDLE
      then snd (QueryPool_Destroy numPalDevices (ObjectFromHandle queryPool) w)
      else w)"

section \<open>Properties of the timestamp read-back\<close>

subsection \<open>The polling loop\<close>

lemma wait_loop_ready: "wait_loop src notReady off (v, True, t) = Some (v, True, t)"
  by (subst wait_loop.simps) simp

lemma wait_loop_Some:
  assumes "wait_loop src notReady off s = Some s'"
  shows "fst (snd s') \<and> snd (snd s) \<le> snd (snd s') \<and>
   (\<not> fst (snd s) \<longrightarrow> (\<exists>t'. snd (snd s) \<le> t' \<and> t' < snd (snd s') \<and> src t' off \<noteq> notReady \<and> fst s' = src t' off))
   \<and> (fst (snd s) \<longrightarrow> s' = s)"
proof (rule wait_loop.raw_induct[where P = "\<lambda>src notReady off s s'.
   fst (snd s') \<and> snd (snd s) \<le> snd (snd s') \<and>
   (\<not> fst (snd s) \<longrightarrow> (\<exists>t'. snd (snd s) \<le> t' \<and> t' < snd (snd s') \<and> src t' off \<noteq> notReady \<and> fst s' = src t' off))
   \<and> (fst (snd s) \<longrightarrow> s' = s)", OF _ assms], goal_cases)
  case (1 wl src notReady off s s')
  obtain v r t where s: "s = (v, r, t)" by (cases s)
  show ?case
  proof (cases r)
    case True
    with 1(2) s show ?thesis by auto
  next
    case False
    with 1(2) s have rec: "wl src notReady off (src t off, src t off \<noteq> notReady, Suc t) = Some s'" by simp
    from 1(1)[OF rec] show ?thesis using s False
      apply (cases "src t off \<noteq> notReady")
       apply (auto)[1]
      apply simp
      apply (metis Suc_leD)
      done
  qed
qed

lemma wait_loop_terminates:
  "t \<le> t' \<Longrightarrow> src t' off \<noteq> notReady \<Longrightarrow> \<exists>s'. wait_loop src notReady off (v, r, t) = Some s'"
proof (induction "t' - t" arbitrary: t v r)
  case 0
  then have "t' = t" by simp
  with 0 show ?case
    by (cases r) (simp_all add: wait_loop.simps[of _ _ _ "(v, False, t)"] wait_loop_ready del: split_paired_Ex)
next
  case (Suc n)
  show ?case
  proof (cases r)
    case True then show ?thesis by (simp add: wait_loop_ready del: split_paired_Ex)
  next
    case False
    have "\<exists>s'. wait_loop src notReady off (src t off, src t off \<noteq> notReady, Suc t) = Some s'"
      using Suc by (intro Suc.hyps(1)) auto
    then show ?thesis using False by (subst wait_loop.simps) simp
  qed
qed

subsection \<open>The slot loop without waiting\<close>

lemma read_timestamp_nowait:
  "flags AND VK_QUERY_RESULT_WAIT_BIT = 0 \<Longrightarrow>
   read_timestamp src notReady flags off t = Some (src t off, src t off \<noteq> notReady, Suc t)"
  by (simp add: read_timestamp_def Let_def)

lemma ts_loop_nowait:
  "flags AND VK_QUERY_RESULT_WAIT_BIT = 0 \<Longrightarrow> clock st = tb + dstSlot \<Longrightarrow> dstSlot \<le> unat queryCount \<Longrightarrow>
   ts_loop src notReady slotSize startQuery queryCount stride flags dstSlot st =
     Some \<lparr>allReady = (allReady st \<and>
                (\<forall>j. dstSlot \<le> j \<and> j < unat queryCount \<longrightarrow> observed src tb slotSize startQuery j \<noteq> notReady)),
           writes = writes st @ concat (map (\<lambda>j. write_slot flags (slotDataOffset stride j)
                       (observed src tb slotSize startQuery j)
                       (observed src tb slotSize startQuery j \<noteq> notReady)) [dstSlot..<unat queryCount]),
           clock = tb + unat queryCount\<rparr>"
proof (induction src notReady slotSize startQuery queryCount stride flags dstSlot st
       rule: ts_loop.induct)
  case (1 src notReady slotSize startQuery queryCount stride flags dstSlot st)
  show ?case
  proof (cases "dstSlot < unat queryCount")
    case False
    with "1.prems" have "dstSlot = unat queryCount" by simp
    then show ?thesis using "1.prems" by (cases st) (auto simp: ts_loop.simps)
  next
    case True
    let ?v = "src (clock st) (srcSlotOffset slotSize startQuery dstSlot)"
    have rd: "read_timestamp src notReady flags (srcSlotOffset slotSize startQuery dstSlot) (clock st)
              = Some (?v, ?v \<noteq> notReady, Suc (clock st))"
      using "1.prems"(1) by (rule read_timestamp_nowait)
    have obs: "?v = observed src tb slotSize startQuery dstSlot"
      using "1.prems"(2) by (simp add: observed_def)
    have all: "(\<forall>j. dstSlot \<le> j \<and> j < unat queryCount \<longrightarrow> P j) =
               (P dstSlot \<and> (\<forall>j. Suc dstSlot \<le> j \<and> j < unat queryCount \<longrightarrow> P j))" for P
      using True by (metis Suc_leD Suc_leI le_neq_implies_less order_refl)
    let ?st' = "\<lparr>allReady = (allReady st \<and> ?v \<noteq> notReady),
                 writes = writes st @ write_slot flags (slotDataOffset stride dstSlot) ?v (?v \<noteq> notReady),
                 clock = Suc (clock st)\<rparr>"
    have step: "ts_loop src notReady slotSize startQuery queryCount stride flags dstSlot st =
                ts_loop src notReady slotSize startQuery queryCount stride flags (Suc dstSlot) ?st'"
      by (subst ts_loop.simps) (simp only: True if_True rd option.case prod.case)
    have ih: "ts_loop src notReady slotSize startQuery queryCount stride flags (Suc dstSlot) ?st' =
       Some \<lparr>allReady = (allReady ?st' \<and>
                (\<forall>j. Suc dstSlot \<le> j \<and> j < unat queryCount \<longrightarrow> observed src tb slotSize startQuery j \<noteq> notReady)),
           writes = writes ?st' @ concat (map (\<lambda>j. write_slot flags (slotDataOffset stride j)
                       (observed src tb slotSize startQuery j)
                       (observed src tb slotSize startQuery j \<noteq> notReady)) [Suc dstSlot..<unat queryCount]),
           clock = tb + unat queryCount\<rparr>"
      using "1.prems" True by (intro "1.IH"[OF True rd refl refl]) simp_all
    show ?thesis
      unfolding step ih
      by (simp add: obs upt_conv_Cons[OF True]
            all[of "\<lambda>j. observed src tb slotSize startQuery j \<noteq> notReady"])
  qed
qed

subsection \<open>The slot loop with waiting\<close>

lemma read_timestamp_Some:
  assumes "read_timestamp src notReady flags off t = Some (v, r, t')"
  shows "t < t' \<and> (flags AND VK_QUERY_RESULT_WAIT_BIT \<noteq> 0 \<longrightarrow>
           r \<and> (\<exists>t''. t \<le> t'' \<and> t'' < t' \<and> src t'' off \<noteq> notReady \<and> v = src t'' off))"
proof (cases "flags AND VK_QUERY_RESULT_WAIT_BIT \<noteq> 0")
  case False
  with assms show ?thesis by (auto simp: read_timestamp_def Let_def)
next
  case True
  with assms have wl: "wait_loop src notReady off (src t off, src t off \<noteq> notReady, Suc t) = Some (v, r, t')"
    by (simp add: read_timestamp_def Let_def)
  from wait_loop_Some[OF wl] show ?thesis
    using True
    apply (cases "src t off \<noteq> notReady")
     apply auto[1]
    apply simp
    apply (metis Suc_leD)
    done
qed

lemma read_timestamp_terminates:
  assumes wait: "flags AND VK_QUERY_RESULT_WAIT_BIT \<noteq> 0"
    and "\<exists>t'\<ge>t. src t' off \<noteq> notReady"
  shows "\<exists>v t'. read_timestamp src notReady flags off t = Some (v, True, t')"
proof (cases "src t off \<noteq> notReady")
  case True
  then show ?thesis by (simp add: read_timestamp_def Let_def wait_loop_ready)
next
  case False
  with assms(2) obtain t' where t': "Suc t \<le> t'" "src t' off \<noteq> notReady"
    by (metis Suc_leI le_neq_implies_less)
  from wait_loop_terminates[where t = "Suc t" and t' = t' and src = src and off = off
        and notReady = notReady and v = "src t off" and r = False] t'
  obtain s' where s': "wait_loop src notReady off (src t off, False, Suc t) = Some s'" by blast
  from wait_loop_Some[OF s'] have "fst (snd s')" by simp
  then obtain v t'' where "s' = (v, True, t'')" by (cases s') auto
  with s' False wait show ?thesis
    by (simp add: read_timestamp_def Let_def)
qed

lemma ts_loop_Some_clock:
  "ts_loop src notReady slotSize startQuery queryCount stride flags dstSlot st = Some st' \<Longrightarrow>
   clock st \<le> clock st'"
proof (induction src notReady slotSize startQuery queryCount stride flags dstSlot st
       rule: ts_loop.induct)
  case (1 src notReady slotSize startQuery queryCount stride flags dstSlot st)
  show ?case
  proof (cases "dstSlot < unat queryCount")
    case False
    with "1.prems" show ?thesis by (simp add: ts_loop.simps)
  next
    case True
    from "1.prems" True obtain v r t' where
      rd: "read_timestamp src notReady flags (srcSlotOffset slotSize startQuery dstSlot) (clock st) = Some (v, r, t')"
      and rest: "ts_loop src notReady slotSize startQuery queryCount stride flags (Suc dstSlot)
          \<lparr>allReady = (allReady st \<and> r),
           writes = writes st @ write_slot flags (slotDataOffset stride dstSlot) v r,
           clock = t'\<rparr> = Some st'"
      by (subst (asm) ts_loop.simps) (auto split: option.splits)
    from "1.IH"[OF True rd refl refl rest] read_timestamp_Some[OF rd]
    show ?thesis by simp
  qed
qed

lemma ts_loop_Some_wait:
  "ts_loop src notReady slotSize startQuery queryCount stride flags dstSlot st = Some st' \<Longrightarrow>
   flags AND VK_QUERY_RESULT_WAIT_BIT \<noteq> 0 \<Longrightarrow>
   dstSlot \<le> j \<Longrightarrow> j < unat queryCount \<Longrightarrow>
   \<exists>t\<ge>clock st. src t (srcSlotOffset slotSize startQuery j) \<noteq> notReady"
proof (induction src notReady slotSize startQuery queryCount stride flags dstSlot st
       rule: ts_loop.induct)
  case (1 src notReady slotSize startQuery queryCount stride flags dstSlot st)
  have True: "dstSlot < unat queryCount" using "1.prems" by simp
  from "1.prems"(1) True obtain v r t' where
      rd: "read_timestamp src notReady flags (srcSlotOffset slotSize startQuery dstSlot) (clock st) = Some (v, r, t')"
      and rest: "ts_loop src notReady slotSize startQuery queryCount stride flags (Suc dstSlot)
          \<lparr>allReady = (allReady st \<and> r),
           writes = writes st @ write_slot flags (slotDataOffset stride dstSlot) v r,
           clock = t'\<rparr> = Some st'"
    by (subst (asm) ts_loop.simps) (auto split: option.splits)
  note rs = read_timestamp_Some[OF rd]
  show ?case
  proof (cases "j = dstSlot")
    case True
    with rs "1.prems"(2) show ?thesis by auto
  next
    case False
    with "1.prems" have "Suc dstSlot \<le> j" by simp
    from "1.IH"[OF True rd refl refl rest "1.prems"(2) this "1.prems"(4)]
    obtain t where "t' \<le> t" "src t (srcSlotOffset slotSize startQuery j) \<noteq> notReady" by auto
    with rs show ?thesis by (intro exI[of _ t]) simp
  qed
qed

lemma ts_loop_wait_terminates:
  "flags AND VK_QUERY_RESULT_WAIT_BIT \<noteq> 0 \<Longrightarrow>
   (\<forall>j tb. dstSlot \<le> j \<and> j < unat queryCount \<longrightarrow>
       (\<exists>t\<ge>tb. src t (srcSlotOffset slotSize startQuery j) \<noteq> notReady)) \<Longrightarrow>
   \<exists>st'. ts_loop src notReady slotSize startQuery queryCount stride flags dstSlot st = Some st' \<and>
         allReady st' = allReady st"
proof (induction src notReady slotSize startQuery queryCount stride flags dstSlot st
       rule: ts_loop.induct)
  case (1 src notReady slotSize startQuery queryCount stride flags dstSlot st)
  show ?case
  proof (cases "dstSlot < unat queryCount")
    case False
    then show ?thesis by (simp add: ts_loop.simps)
  next
    case True
    with "1.prems"(2) have ex: "\<exists>t\<ge>clock st. src t (srcSlotOffset slotSize startQuery dstSlot) \<noteq> notReady"
      by simp
    have "\<exists>v t'. read_timestamp src notReady flags (srcSlotOffset slotSize startQuery dstSlot) (clock st) = Some (v, True, t')"
      using "1.prems"(1) ex by (rule read_timestamp_terminates)
    then obtain v t' where
      rd: "read_timestamp src notReady flags (srcSlotOffset slotSize startQuery dstSlot) (clock st) = Some (v, True, t')"
      by blast
    have "\<exists>st'. ts_loop src notReady slotSize startQuery queryCount stride flags (Suc dstSlot)
          \<lparr>allReady = (allReady st \<and> True),
           writes = writes st @ write_slot flags (slotDataOffset stride dstSlot) v True,
           clock = t'\<rparr> = Some st' \<and> allReady st' = allReady \<lparr>allReady = (allReady st \<and> True),
           writes = writes st @ write_slot flags (slotDataOffset stride dstSlot) v True,
           clock = t'\<rparr>"
      using "1.prems" by (intro "1.IH"[OF True rd refl refl]) auto
    then show ?thesis
      by (subst ts_loop.simps) (simp add: True rd)
  qed
qed

subsection \<open>The clamp and the offsets of the stores\<close>

lemma unat_min_word: "unat (min a b) = min (unat a) (unat b)" for a b :: "'a::len word"
  by (simp add: min_def word_le_nat_alt)

lemma unat_max_word: "unat (max a b) = max (unat a) (unat b)" for a b :: "'a::len word"
  by (simp add: max_def word_le_nat_alt)

lemma unat_queryValueSize:
  "unat (queryValueSize flags) = (if flags AND VK_QUERY_RESULT_64_BIT \<noteq> 0 then 8 else 4)"
  by (simp add: queryValueSize_def)

lemma unat_querySlotSize:
  "unat (querySlotSize flags) =
     unat (queryValueSize flags) * (if flags AND VK_QUERY_RESULT_WITH_AVAILABILITY_BIT \<noteq> 0 then 2 else 1)"
  by (simp add: querySlotSize_def queryValueSize_def)

lemma querySlotSize_pos: "0 < unat (querySlotSize flags)"
  by (simp add: unat_querySlotSize unat_queryValueSize)

lemma clampQueryCount_le:
  "unat (clampQueryCount queryCount dataSize stride flags) \<le> unat queryCount"
  by (simp add: clampQueryCount_def unat_min_word)

lemma clampQueryCount_bound:
  "unat (clampQueryCount queryCount dataSize stride flags) * max (unat (querySlotSize flags)) (unat stride)
     \<le> unat dataSize"
proof -
  let ?M = "max (unat (querySlotSize flags)) (unat stride)"
  have "unat (clampQueryCount queryCount dataSize stride flags)
          \<le> unat (ucast (dataSize div max (querySlotSize flags) stride) :: uint32_t)"
    by (simp add: clampQueryCount_def unat_min_word)
  also have "\<dots> \<le> unat (dataSize div max (querySlotSize flags) stride)"
    by (simp add: unsigned_ucast_eq take_bit_eq_mod)
  also have "\<dots> = unat dataSize div ?M"
    by (simp add: unat_div unat_max_word)
  finally have "unat (clampQueryCount queryCount dataSize stride flags) * ?M \<le> (unat dataSize div ?M) * ?M"
    by (rule mult_le_mono1)
  also have "\<dots> \<le> unat dataSize" by simp
  finally show ?thesis .
qed

lemma slotDataOffset_exact:
  assumes "j < unat (clampQueryCount queryCount dataSize stride flags)"
  shows "slotDataOffset stride j = j * unat stride"
    and "j * unat stride + unat (querySlotSize flags) \<le> unat dataSize"
proof -
  let ?n = "unat (clampQueryCount queryCount dataSize stride flags)"
  let ?M = "max (unat (querySlotSize flags)) (unat stride)"
  have "Suc j * ?M \<le> ?n * ?M" using assms by (intro mult_le_mono1) simp
  from this clampQueryCount_bound[of queryCount dataSize stride flags]
  have b: "Suc j * ?M \<le> unat dataSize" by (rule order_trans)
  have "j * unat stride + unat (querySlotSize flags) \<le> j * ?M + ?M"
    by (intro add_mono mult_le_mono2) simp_all
  with b show le: "j * unat stride + unat (querySlotSize flags) \<le> unat dataSize" by simp
  have "unat dataSize < 2 ^ 64" using unsigned_less[of dataSize, where 'a = nat] by simp
  with le have lt: "j * unat stride < 2 ^ 64" by simp
  have "j < 2 ^ 32" using assms unsigned_less[of "clampQueryCount queryCount dataSize stride flags", where 'a = nat] by simp
  then have "unat (of_nat j :: 64 word) = j" by (simp add: unat_of_nat)
  then have "unat (of_nat j * stride) = (j * unat stride) mod 2 ^ 64"
    by (simp add: unat_word_ariths)
  with lt show "slotDataOffset stride j = j * unat stride"
    by (simp add: slotDataOffset_def)
qed

lemma footprint_write_slot:
  "s \<in> set (write_slot flags off v r) \<Longrightarrow> footprint s \<subseteq> {off ..< off + unat (querySlotSize flags)}"
  by (auto simp: write_slot_def footprint_def unat_querySlotSize unat_queryValueSize split: if_splits)

subsection \<open>The stores of a call\<close>

lemma GetResults_nowait:
  assumes "queryCount > 0" and "flags AND VK_QUERY_RESULT_WAIT_BIT = 0"
  shows "TimestampQueryPool_GetResults src notReady slotSize startQuery queryCount dataSize stride flags t =
     Some (if \<forall>j < unat (clampQueryCount queryCount dataSize stride flags).
                 observed src t slotSize startQuery j \<noteq> notReady
           then VK_SUCCESS else VK_NOT_READY,
           concat (map (\<lambda>j. write_slot flags (slotDataOffset stride j)
                       (observed src t slotSize startQuery j)
                       (observed src t slotSize startQuery j \<noteq> notReady))
                    [0..<unat (clampQueryCount queryCount dataSize stride flags)]),
           t + unat (clampQueryCount queryCount dataSize stride flags))"
  using assms
  by (simp add: TimestampQueryPool_GetResults_def
        ts_loop_nowait[where tb = t and dstSlot = 0 and st = "\<lparr>allReady = True, writes = [], clock = t\<rparr>", simplified])

lemma ts_loop_writes:
  "ts_loop src notReady slotSize startQuery queryCount stride flags dstSlot st = Some st' \<Longrightarrow>
   s \<in> set (writes st') \<Longrightarrow>
   s \<in> set (writes st) \<or>
   (\<exists>j v r. dstSlot \<le> j \<and> j < unat queryCount \<and> s \<in> set (write_slot flags (slotDataOffset stride j) v r))"
proof (induction src notReady slotSize startQuery queryCount stride flags dstSlot st
       rule: ts_loop.induct)
  case (1 src notReady slotSize startQuery queryCount stride flags dstSlot st)
  show ?case
  proof (cases "dstSlot < unat queryCount")
    case False
    with "1.prems" show ?thesis by (simp add: ts_loop.simps)
  next
    case True
    from "1.prems"(1) True obtain v r t' where
      rd: "read_timestamp src notReady flags (srcSlotOffset slotSize startQuery dstSlot) (clock st) = Some (v, r, t')"
      and rest: "ts_loop src notReady slotSize startQuery queryCount stride flags (Suc dstSlot)
          \<lparr>allReady = (allReady st \<and> r),
           writes = writes st @ write_slot flags (slotDataOffset stride dstSlot) v r,
           clock = t'\<rparr> = Some st'"
      by (subst (asm) ts_loop.simps) (auto split: option.splits)
    from "1.IH"[OF True rd refl refl rest "1.prems"(2)] True
    show ?thesis
      apply simp
      apply (elim disjE exE conjE)
        apply simp
       apply (rule disjI2, rule exI[of _ dstSlot], blast)
      apply (rule disjI2)
      subgoal for j v r by (rule exI[of _ j]) auto
      done
  qed
qed

lemma GetResults_writes:
  assumes "TimestampQueryPool_GetResults src notReady slotSize startQuery queryCount dataSize stride flags t
            = Some (res, ws, t')"
    and "s \<in> set ws"
  shows "\<exists>j v r. j < unat (clampQueryCount queryCount dataSize stride flags) \<and>
           s \<in> set (write_slot flags (slotDataOffset stride j) v r)"
proof (cases "queryCount > 0")
  case False
  with assms show ?thesis by (simp add: TimestampQueryPool_GetResults_def)
next
  case True
  with assms(1) obtain st where
    st: "ts_loop src notReady slotSize startQuery (clampQueryCount queryCount dataSize stride flags)
           stride flags 0 \<lparr>allReady = True, writes = [], clock = t\<rparr> = Some st"
    and ws: "ws = writes st"
    by (auto simp: TimestampQueryPool_GetResults_def split: option.splits)
  from ts_loop_writes[OF st, of s] assms(2) ws show ?thesis by auto
qed

lemma write_slot_in_bounds:
  assumes "j < unat (clampQueryCount queryCount dataSize stride flags)"
    and "s \<in> set (write_slot flags (slotDataOffset stride j) v r)"
  shows "footprint s \<subseteq> {..<unat dataSize}"
proof -
  from footprint_write_slot[OF assms(2)]
  have "footprint s \<subseteq> {slotDataOffset stride j ..< slotDataOffset stride j + unat (querySlotSize flags)}" .
  with slotDataOffset_exact[OF assms(1)] show ?thesis by auto
qed

subsection \<open>The reads of a call\<close>

lemma read_timestamp_value:
  assumes "read_timestamp src notReady flags off t = Some (v, r, t')"
  shows "\<exists>t''. t \<le> t'' \<and> t'' < t' \<and> v = src t'' off \<and> r = (v \<noteq> notReady) \<and>
           (flags AND VK_QUERY_RESULT_WAIT_BIT \<noteq> 0 \<longrightarrow> r) \<and>
           (flags AND VK_QUERY_RESULT_WAIT_BIT = 0 \<longrightarrow> t'' = t \<and> t' = Suc t)"
proof (cases "flags AND VK_QUERY_RESULT_WAIT_BIT \<noteq> 0")
  case False
  with assms show ?thesis by (auto simp: read_timestamp_def Let_def)
next
  case True
  with assms have wl: "wait_loop src notReady off (src t off, src t off \<noteq> notReady, Suc t) = Some (v, r, t')"
    by (simp add: read_timestamp_def Let_def)
  show ?thesis
  proof (cases "src t off \<noteq> notReady")
    case ready: True
    with wait_loop_Some[OF wl] True show ?thesis by (intro exI[of _ t]) auto
  next
    case False
    with wait_loop_Some[OF wl] obtain t'' where "Suc t \<le> t''" "t'' < t'" "src t'' off \<noteq> notReady" "v = src t'' off" "r"
      by auto
    with True show ?thesis by (intro exI[of _ t'']) auto
  qed
qed

lemma ts_loop_trace:
  "ts_loop src notReady slotSize startQuery queryCount stride flags dstSlot st = Some st' \<Longrightarrow>
   \<exists>rd. (\<forall>j. dstSlot \<le> j \<and> j < unat queryCount \<longrightarrow>
            clock st \<le> rd j \<and> rd j < clock st' \<and>
            (flags AND VK_QUERY_RESULT_WAIT_BIT \<noteq> 0 \<longrightarrow> slot_value src rd slotSize startQuery j \<noteq> notReady) \<and>
            (flags AND VK_QUERY_RESULT_WAIT_BIT = 0 \<longrightarrow> rd j = clock st + (j - dstSlot))) \<and>
        writes st' = writes st @ concat (map (\<lambda>j. write_slot flags (slotDataOffset stride j)
                        (slot_value src rd slotSize startQuery j)
                        (slot_value src rd slotSize startQuery j \<noteq> notReady)) [dstSlot..<unat queryCount]) \<and>
        allReady st' = (allReady st \<and>
           (\<forall>j. dstSlot \<le> j \<and> j < unat queryCount \<longrightarrow> slot_value src rd slotSize startQuery j \<noteq> notReady))"
proof (induction src notReady slotSize startQuery queryCount stride flags dstSlot st
       rule: ts_loop.induct)
  case (1 src notReady slotSize startQuery queryCount stride flags dstSlot st)
  show ?case
  proof (cases "dstSlot < unat queryCount")
    case False
    with "1.prems" show ?thesis by (auto simp: ts_loop.simps)
  next
    case True
    from "1.prems"(1) True obtain v r t' where
      rd: "read_timestamp src notReady flags (srcSlotOffset slotSize startQuery dstSlot) (clock st) = Some (v, r, t')"
      and rest: "ts_loop src notReady slotSize startQuery queryCount stride flags (Suc dstSlot)
          \<lparr>allReady = (allReady st \<and> r),
           writes = writes st @ write_slot flags (slotDataOffset stride dstSlot) v r,
           clock = t'\<rparr> = Some st'"
      by (subst (asm) ts_loop.simps) (auto split: option.splits)
    from read_timestamp_value[OF rd] obtain t'' where
      t'': "clock st \<le> t''" "t'' < t'" "v = src t'' (srcSlotOffset slotSize startQuery dstSlot)"
           "r = (v \<noteq> notReady)" "flags AND VK_QUERY_RESULT_WAIT_BIT \<noteq> 0 \<longrightarrow> r"
           "flags AND VK_QUERY_RESULT_WAIT_BIT = 0 \<longrightarrow> t'' = clock st \<and> t' = Suc (clock st)"
      by blast
    from "1.IH"[OF True rd refl refl rest] obtain rd' where
      rd': "\<forall>j. Suc dstSlot \<le> j \<and> j < unat queryCount \<longrightarrow>
            t' \<le> rd' j \<and> rd' j < clock st' \<and>
            (flags AND VK_QUERY_RESULT_WAIT_BIT \<noteq> 0 \<longrightarrow> slot_value src rd' slotSize startQuery j \<noteq> notReady) \<and>
            (flags AND VK_QUERY_RESULT_WAIT_BIT = 0 \<longrightarrow> rd' j = t' + (j - Suc dstSlot))"
      and w': "writes st' = (writes st @ write_slot flags (slotDataOffset stride dstSlot) v r) @
           concat (map (\<lambda>j. write_slot flags (slotDataOffset stride j)
                        (slot_value src rd' slotSize startQuery j)
                        (slot_value src rd' slotSize startQuery j \<noteq> notReady)) [Suc dstSlot..<unat queryCount])"
      and a': "allReady st' = ((allReady st \<and> r) \<and>
           (\<forall>j. Suc dstSlot \<le> j \<and> j < unat queryCount \<longrightarrow> slot_value src rd' slotSize startQuery j \<noteq> notReady))"
      by auto
    have clk: "t' \<le> clock st'" using ts_loop_Some_clock[OF rest] by simp
    let ?rd = "rd'(dstSlot := t'')"
    have sv_same: "slot_value src ?rd slotSize startQuery j = slot_value src rd' slotSize startQuery j"
      if "Suc dstSlot \<le> j" for j using that by (simp add: slot_value_def)
    have sv_here: "slot_value src ?rd slotSize startQuery dstSlot = v"
      using t''(3) by (simp add: slot_value_def)
    have split: "(dstSlot \<le> j \<and> j < unat queryCount) = (j = dstSlot \<or> (Suc dstSlot \<le> j \<and> j < unat queryCount))" for j
      using True by auto
    have map_eq: "map (\<lambda>j. write_slot flags (slotDataOffset stride j)
                        (slot_value src ?rd slotSize startQuery j)
                        (slot_value src ?rd slotSize startQuery j \<noteq> notReady)) [Suc dstSlot..<unat queryCount]
              = map (\<lambda>j. write_slot flags (slotDataOffset stride j)
                        (slot_value src rd' slotSize startQuery j)
                        (slot_value src rd' slotSize startQuery j \<noteq> notReady)) [Suc dstSlot..<unat queryCount]"
      by (rule map_cong) (simp_all add: sv_same)
    show ?thesis
    proof (rule exI[of _ ?rd], intro conjI allI impI)
      fix j assume j: "dstSlot \<le> j \<and> j < unat queryCount"
      show "clock st \<le> ?rd j"
      proof (cases "j = dstSlot")
        case True
        with t'' show ?thesis by simp
      next
        case False
        with j have "Suc dstSlot \<le> j \<and> j < unat queryCount" by simp
        with rd' have "t' \<le> rd' j" by blast
        with t''(1,2) False show ?thesis by simp
      qed
      show "?rd j < clock st'"
      proof (cases "j = dstSlot")
        case True
        with t'' clk show ?thesis by simp
      next
        case False
        with j have "Suc dstSlot \<le> j \<and> j < unat queryCount" by simp
        with rd' have "rd' j < clock st'" by blast
        with False show ?thesis by simp
      qed
    next
      fix j assume j: "dstSlot \<le> j \<and> j < unat queryCount" and w: "flags AND VK_QUERY_RESULT_WAIT_BIT \<noteq> 0"
      show "slot_value src ?rd slotSize startQuery j \<noteq> notReady"
      proof (cases "j = dstSlot")
        case True
        with sv_here t'' w show ?thesis by simp
      next
        case False
        with j have "Suc dstSlot \<le> j" by simp
        with rd' j w sv_same show ?thesis by simp
      qed
    next
      fix j assume j: "dstSlot \<le> j \<and> j < unat queryCount" and w: "flags AND VK_QUERY_RESULT_WAIT_BIT = 0"
      show "?rd j = clock st + (j - dstSlot)"
      proof (cases "j = dstSlot")
        case True
        with t'' w show ?thesis by simp
      next
        case False
        with j have "Suc dstSlot \<le> j" by simp
        with rd' j w t'' show ?thesis by auto
      qed
    next
      show "writes st' = writes st @ concat (map (\<lambda>j. write_slot flags (slotDataOffset stride j)
                        (slot_value src ?rd slotSize startQuery j)
                        (slot_value src ?rd slotSize startQuery j \<noteq> notReady)) [dstSlot..<unat queryCount])"
        unfolding upt_conv_Cons[OF True] list.map concat.simps map_eq w'
        using sv_here t''(4) by simp
    next
      show "allReady st' = (allReady st \<and>
           (\<forall>j. dstSlot \<le> j \<and> j < unat queryCount \<longrightarrow> slot_value src ?rd slotSize startQuery j \<noteq> notReady))"
        unfolding a' split using sv_here sv_same t''(4) by auto
    qed
  qed
qed

lemma GetResults_trace:
  assumes "TimestampQueryPool_GetResults src notReady slotSize startQuery queryCount dataSize stride flags t
            = Some (res, ws, t')"
    and "queryCount > 0"
  shows "\<exists>rd. (\<forall>j. j < unat (clampQueryCount queryCount dataSize stride flags) \<longrightarrow>
            t \<le> rd j \<and> rd j < t' \<and>
            (flags AND VK_QUERY_RESULT_WAIT_BIT \<noteq> 0 \<longrightarrow> slot_value src rd slotSize startQuery j \<noteq> notReady) \<and>
            (flags AND VK_QUERY_RESULT_WAIT_BIT = 0 \<longrightarrow> rd j = t + j)) \<and>
        ws = concat (map (\<lambda>j. write_slot flags (slotDataOffset stride j)
                        (slot_value src rd slotSize startQuery j)
                        (slot_value src rd slotSize startQuery j \<noteq> notReady))
                  [0..<unat (clampQueryCount queryCount dataSize stride flags)]) \<and>
        res = (if \<forall>j. j < unat (clampQueryCount queryCount dataSize stride flags) \<longrightarrow>
                     slot_value src rd slotSize startQuery j \<noteq> notReady
               then VK_SUCCESS else VK_NOT_READY)"
proof -
  from assms obtain st where
    st: "ts_loop src notReady slotSize startQuery (clampQueryCount queryCount dataSize stride flags)
           stride flags 0 \<lparr>allReady = True, writes = [], clock = t\<rparr> = Some st"
    and r: "res = (if allReady st then VK_SUCCESS else VK_NOT_READY)" "ws = writes st" "t' = clock st"
    by (auto simp: TimestampQueryPool_GetResults_def split: option.splits)
  have c0: "clock \<lparr>allReady = True, writes = [], clock = t\<rparr> = t"
    and w0: "writes \<lparr>allReady = True, writes = [], clock = t\<rparr> = []"
    and a0: "allReady \<lparr>allReady = True, writes = [], clock = t\<rparr> = True"
    by simp_all
  note tr = ts_loop_trace[OF st, unfolded c0 w0 a0 append_Nil diff_zero le0 simp_thms, folded r(2,3)]
  from tr obtain rd where
    rd: "(\<forall>j. 0 \<le> j \<and> j < unat (clampQueryCount queryCount dataSize stride flags) \<longrightarrow>
            t \<le> rd j \<and> rd j < t' \<and>
            (flags AND VK_QUERY_RESULT_WAIT_BIT \<noteq> 0 \<longrightarrow> slot_value src rd slotSize startQuery j \<noteq> notReady) \<and>
            (flags AND VK_QUERY_RESULT_WAIT_BIT = 0 \<longrightarrow> rd j = t + j))"
    and w: "ws = concat (map (\<lambda>j. write_slot flags (slotDataOffset stride j)
                        (slot_value src rd slotSize startQuery j)
                        (slot_value src rd slotSize startQuery j \<noteq> notReady))
                  [0..<unat (clampQueryCount queryCount dataSize stride flags)])"
    and a: "allReady st = (\<forall>j. 0 \<le> j \<and> j < unat (clampQueryCount queryCount dataSize stride flags) \<longrightarrow>
               slot_value src rd slotSize startQuery j \<noteq> notReady)"
    by (elim exE conjE)
  have rd': "\<forall>j. j < unat (clampQueryCount queryCount dataSize stride flags) \<longrightarrow>
            t \<le> rd j \<and> rd j < t' \<and>
            (flags AND VK_QUERY_RESULT_WAIT_BIT \<noteq> 0 \<longrightarrow> slot_value src rd slotSize startQuery j \<noteq> notReady) \<and>
            (flags AND VK_QUERY_RESULT_WAIT_BIT = 0 \<longrightarrow> rd j = t + j)"
    using rd by blast
  have a': "allReady st = (\<forall>j. j < unat (clampQueryCount queryCount dataSize stride flags) \<longrightarrow>
               slot_value src rd slotSize startQuery j \<noteq> notReady)"
    unfolding a by blast
  show ?thesis
    by (rule exI[of _ rd], intro conjI) (fact rd', fact w, simp only: r(1) a')
qed

section \<open>Properties of the stream-output read-back\<close>

lemma xfb_loop_eq:
  "i \<le> unat queryCount \<Longrightarrow>
   xfb_loop flags res scratch queryCount stride i s =
     (fst s + (unat queryCount - i) * unat stride,
      snd s @ concat (map (\<lambda>j. xfb_write flags res
                          (\<lambda>k. scratch (j * unat (numXfbQueryDataElems flags) + k))
                          (fst s + (j - i) * unat stride)) [i..<unat queryCount]))"
proof (induction flags res scratch queryCount stride i s rule: xfb_loop.induct)
  case (1 flags res scratch queryCount stride i s)
  show ?case
  proof (cases "i < unat queryCount")
    case False
    with "1.prems" show ?thesis by (simp add: xfb_loop.simps)
  next
    case True
    have m: "map (\<lambda>j. xfb_write flags res (\<lambda>k. scratch (j * unat (numXfbQueryDataElems flags) + k))
                     (fst s + unat stride + (j - Suc i) * unat stride)) [Suc i..<unat queryCount]
           = map (\<lambda>j. xfb_write flags res (\<lambda>k. scratch (j * unat (numXfbQueryDataElems flags) + k))
                     (fst s + (j - i) * unat stride)) [Suc i..<unat queryCount]"
    proof (rule map_cong[OF refl])
      fix j assume "j \<in> set [Suc i..<unat queryCount]"
      then have "j - i = Suc (j - Suc i)" by auto
      then show "xfb_write flags res (\<lambda>k. scratch (j * unat (numXfbQueryDataElems flags) + k))
                     (fst s + unat stride + (j - Suc i) * unat stride)
               = xfb_write flags res (\<lambda>k. scratch (j * unat (numXfbQueryDataElems flags) + k))
                     (fst s + (j - i) * unat stride)" by (simp add: add.assoc)
    qed
    have s: "(unat queryCount - i) * unat stride = unat stride + (unat queryCount - Suc i) * unat stride"
      using True by (metis Suc_diff_Suc mult_Suc)
    show ?thesis
      apply (subst xfb_loop.simps)
      apply (simp only: True if_True)
      apply (subst "1.IH"[OF True])
      using True apply simp
      apply (simp add: upt_conv_Cons[OF True] m s)
      done
  qed
qed

lemma unat_numXfbQueryDataElems:
  "unat (numXfbQueryDataElems flags) = (if flags AND VK_QUERY_RESULT_WITH_AVAILABILITY_BIT \<noteq> 0 then 3 else 2)"
  by (simp add: numXfbQueryDataElems_def)

lemma unat_xfb_stride_zero:
  "unat (xfb_stride flags 0) = 8 * unat (numXfbQueryDataElems flags)"
  by (simp add: xfb_stride_def numXfbQueryDataElems_def)

lemma PalQueryPool_GetResults_xfb:
  assumes "queryCount > 0"
    and "PalToVkResult (pal_result (palGetResults (xfb_args flags startQuery queryCount))) = res"
    and "res = VK_SUCCESS \<or> res = VK_NOT_READY"
  shows "PalQueryPool_GetResults PalToVkResult palGetResults VK_QUERY_TYPE_TRANSFORM_FEEDBACK_STREAM_EXT
           startQuery queryCount dataSize stride flags =
         (res, concat (map (\<lambda>i. xfb_write flags res
              (\<lambda>k. pal_scratch (palGetResults (xfb_args flags startQuery queryCount))
                      (i * unat (numXfbQueryDataElems flags) + k))
              (i * unat (xfb_stride flags stride))) [0..<unat queryCount]))"
proof -
  have args: "\<lparr>pal_flags = flags OR VK_QUERY_RESULT_64_BIT, pal_startQuery = startQuery,
      pal_queryCount = queryCount,
      pal_dataSize = 8 * ucast (numXfbQueryDataElems flags) * ucast queryCount,
      pal_intoScratch = True,
      pal_stride = 8 * ucast (numXfbQueryDataElems flags)\<rparr> = xfb_args flags startQuery queryCount"
    by (simp add: xfb_args_def)
  have str: "(if stride = 0 then 8 * ucast (numXfbQueryDataElems flags) else stride) = xfb_stride flags stride"
    by (simp add: xfb_stride_def)
  show ?thesis
    unfolding PalQueryPool_GetResults_def Let_def
    apply (simp only: assms(1) if_True simp_thms args assms(2) str)
    using assms(3) apply (simp add: xfb_loop_eq)
    done
qed

lemma xfb_write_spec:
  assumes "pal_reports flags scratch i r"
  shows "xfb_write flags res (\<lambda>k. scratch (i * unat (numXfbQueryDataElems flags) + k)) off =
         spec_xfb_record flags res r off"
  using assms
  by (auto simp: xfb_write_def spec_xfb_record_def spec_put_def pal_reports_def)

lemma footprint_xfb_write:
  "s \<in> set (xfb_write flags res p off) \<Longrightarrow> footprint s \<subseteq> {off ..< off + spec_xfb_natural_size flags}"
  by (auto simp: xfb_write_def footprint_def spec_xfb_natural_size_def split: if_splits)

section \<open>Destroying through the entry point\<close>

text \<open>
  Claim C10.  Destroying a pool through \<open>vkDestroyQueryPool\<close> with a null handle is a
  complete no-op: the world after the call is the world before it, so no destroy is
  dispatched (no call to a collaborator is logged), no resource is released and
  nothing else changes, whatever the handle table and the number of devices are.
\<close>

theorem vkDestroyQueryPool_null_noop:
  "vkDestroyQueryPool numPalDevices ObjectFromHandle VK_NULL_HANDLE w = w"
  by (simp add: vkDestroyQueryPool_def)

section \<open>Termination of the timestamp read-back\<close>

text \<open>
  Claim C8.  Without the WAIT flag, \<open>TimestampQueryPool::GetResults\<close> returns for every
  input and every memory, and it reads each examined slot exactly once (the clock
  advances by the number of examined slots).  With the WAIT flag it returns only if
  every examined slot is seen with a word other than the not-ready sentinel at some
  read of the call; when some examined slot holds the sentinel at all times (nothing
  ever overwrites it), the call polls forever: its result is \<open>None\<close>, there is no
  timeout.  When every examined slot does eventually leave the sentinel, the waiting
  call returns, with success.
\<close>

theorem TimestampQueryPool_GetResults_termination:
  "(flags AND VK_QUERY_RESULT_WAIT_BIT = 0 \<longrightarrow>
      (\<exists>res ws. TimestampQueryPool_GetResults src notReady slotSize startQuery queryCount dataSize stride flags t
         = Some (res, ws, t + (if queryCount > 0
                               then unat (clampQueryCount queryCount dataSize stride flags) else 0)))) \<and>
   (flags AND VK_QUERY_RESULT_WAIT_BIT \<noteq> 0 \<longrightarrow>
      (\<forall>r. TimestampQueryPool_GetResults src notReady slotSize startQuery queryCount dataSize stride flags t = Some r \<longrightarrow>
         queryCount > 0 \<longrightarrow>
         (\<forall>j < unat (clampQueryCount queryCount dataSize stride flags).
            \<exists>t'\<ge>t. src t' (srcSlotOffset slotSize startQuery j) \<noteq> notReady)) \<and>
      (queryCount > 0 \<longrightarrow>
         (\<exists>j < unat (clampQueryCount queryCount dataSize stride flags).
            \<forall>t'. src t' (srcSlotOffset slotSize startQuery j) = notReady) \<longrightarrow>
         TimestampQueryPool_GetResults src notReady slotSize startQuery queryCount dataSize stride flags t = None) \<and>
      ((\<forall>j < unat (clampQueryCount queryCount dataSize stride flags).
            \<forall>t0. \<exists>t'\<ge>t0. src t' (srcSlotOffset slotSize startQuery j) \<noteq> notReady) \<longrightarrow>
         (\<exists>ws t'. TimestampQueryPool_GetResults src notReady slotSize startQuery queryCount dataSize stride flags t
            = Some (VK_SUCCESS, ws, t'))))"
proof (intro conjI impI allI)
  assume nw: "flags AND VK_QUERY_RESULT_WAIT_BIT = 0"
  show "\<exists>res ws. TimestampQueryPool_GetResults src notReady slotSize startQuery queryCount dataSize stride flags t
         = Some (res, ws, t + (if queryCount > 0
                               then unat (clampQueryCount queryCount dataSize stride flags) else 0))"
  proof (cases "queryCount > 0")
    case True
    from GetResults_nowait[OF True nw] True show ?thesis by simp
  next
    case False
    then show ?thesis by (simp add: TimestampQueryPool_GetResults_def)
  qed
next
  fix r j
  assume w: "flags AND VK_QUERY_RESULT_WAIT_BIT \<noteq> 0"
    and some: "TimestampQueryPool_GetResults src notReady slotSize startQuery queryCount dataSize stride flags t = Some r"
    and pos: "queryCount > 0"
    and j: "j < unat (clampQueryCount queryCount dataSize stride flags)"
  from some pos obtain st where
    st: "ts_loop src notReady slotSize startQuery (clampQueryCount queryCount dataSize stride flags)
           stride flags 0 \<lparr>allReady = True, writes = [], clock = t\<rparr> = Some st"
    by (auto simp: TimestampQueryPool_GetResults_def split: option.splits)
  from ts_loop_Some_wait[OF st w le0 j]
  show "\<exists>t'\<ge>t. src t' (srcSlotOffset slotSize startQuery j) \<noteq> notReady" by simp
next
  assume w: "flags AND VK_QUERY_RESULT_WAIT_BIT \<noteq> 0"
    and pos: "queryCount > 0"
    and stuck: "\<exists>j < unat (clampQueryCount queryCount dataSize stride flags).
            \<forall>t'. src t' (srcSlotOffset slotSize startQuery j) = notReady"
  then obtain j where j: "j < unat (clampQueryCount queryCount dataSize stride flags)"
    and never: "\<forall>t'. src t' (srcSlotOffset slotSize startQuery j) = notReady" by blast
  show "TimestampQueryPool_GetResults src notReady slotSize startQuery queryCount dataSize stride flags t = None"
  proof (rule ccontr)
    assume "TimestampQueryPool_GetResults src notReady slotSize startQuery queryCount dataSize stride flags t \<noteq> None"
    with pos obtain st where
      st: "ts_loop src notReady slotSize startQuery (clampQueryCount queryCount dataSize stride flags)
           stride flags 0 \<lparr>allReady = True, writes = [], clock = t\<rparr> = Some st"
      by (auto simp: TimestampQueryPool_GetResults_def split: option.splits)
    from ts_loop_Some_wait[OF st w le0 j] never show False by simp
  qed
next
  assume w: "flags AND VK_QUERY_RESULT_WAIT_BIT \<noteq> 0"
    and ev: "\<forall>j < unat (clampQueryCount queryCount dataSize stride flags).
            \<forall>t0. \<exists>t'\<ge>t0. src t' (srcSlotOffset slotSize startQuery j) \<noteq> notReady"
  show "\<exists>ws t'. TimestampQueryPool_GetResults src notReady slotSize startQuery queryCount dataSize stride flags t
            = Some (VK_SUCCESS, ws, t')"
  proof (cases "queryCount > 0")
    case False
    then show ?thesis by (simp add: TimestampQueryPool_GetResults_def)
  next
    case True
    have "\<exists>st'. ts_loop src notReady slotSize startQuery (clampQueryCount queryCount dataSize stride flags)
           stride flags 0 \<lparr>allReady = True, writes = [], clock = t\<rparr> = Some st' \<and>
           allReady st' = allReady \<lparr>allReady = True, writes = [], clock = t\<rparr>"
      using w ev by (intro ts_loop_wait_terminates) auto
    then obtain st' where "ts_loop src notReady slotSize startQuery (clampQueryCount queryCount dataSize stride flags)
           stride flags 0 \<lparr>allReady = True, writes = [], clock = t\<rparr> = Some st'" "allReady st'"
      by auto
    with True show ?thesis by (simp add: TimestampQueryPool_GetResults_def)
  qed
qed

theorem TimestampQueryPool_GetResults_termination_witness:
  "(\<exists>res ws. TimestampQueryPool_GetResults (\<lambda>t off. 7) 0xFFFFFFFFFFFFFFFF 8 0 2 16 8 0 0 = Some (res, ws, 2)) \<and>
   TimestampQueryPool_GetResults (\<lambda>t off. 0xFFFFFFFFFFFFFFFF) 0xFFFFFFFFFFFFFFFF 8 0 2 16 8
      VK_QUERY_RESULT_WAIT_BIT 0 = None \<and>
   (\<exists>ws t'. TimestampQueryPool_GetResults (\<lambda>t off. if t < 5 then 0xFFFFFFFFFFFFFFFF else 7)
      0xFFFFFFFFFFFFFFFF 8 0 2 16 8 VK_QUERY_RESULT_WAIT_BIT 0 = Some (VK_SUCCESS, ws, t'))"
proof -
  have n0: "unat (clampQueryCount 2 16 8 0) = 2"
    by (simp add: clampQueryCount_def querySlotSize_def queryValueSize_def
          VK_QUERY_RESULT_64_BIT_def VK_QUERY_RESULT_WITH_AVAILABILITY_BIT_def)
  have nw: "unat (clampQueryCount 2 16 8 VK_QUERY_RESULT_WAIT_BIT) = 2"
    by (simp add: clampQueryCount_def querySlotSize_def queryValueSize_def VK_QUERY_RESULT_WAIT_BIT_def
          VK_QUERY_RESULT_64_BIT_def VK_QUERY_RESULT_WITH_AVAILABILITY_BIT_def)
  have w: "VK_QUERY_RESULT_WAIT_BIT AND VK_QUERY_RESULT_WAIT_BIT \<noteq> 0"
    by (simp add: VK_QUERY_RESULT_WAIT_BIT_def)
  have c0: "(0::VkQueryResultFlags) AND VK_QUERY_RESULT_WAIT_BIT = 0" by simp
  have ex: "\<exists>j::nat. j < 2" by (rule exI[of _ 0]) simp
  have a: "\<exists>res ws. TimestampQueryPool_GetResults (\<lambda>t off. 7) 0xFFFFFFFFFFFFFFFF 8 0 2 16 8 0 0 = Some (res, ws, 2)"
    using TimestampQueryPool_GetResults_termination
      [of 0 "\<lambda>t off. 7" "0xFFFFFFFFFFFFFFFF" 8 0 2 16 8 0] c0 n0 by (simp add: numeral_2_eq_2)
  have b: "TimestampQueryPool_GetResults (\<lambda>t off. 0xFFFFFFFFFFFFFFFF) 0xFFFFFFFFFFFFFFFF 8 0 2 16 8
      VK_QUERY_RESULT_WAIT_BIT 0 = None"
    using TimestampQueryPool_GetResults_termination
      [of VK_QUERY_RESULT_WAIT_BIT "\<lambda>t off. 0xFFFFFFFFFFFFFFFF" "0xFFFFFFFFFFFFFFFF" 8 0 2 16 8 0] w nw ex
    by simp
  have ev0: "\<exists>t'\<ge>t0. (if t' < 5 then 0xFFFFFFFFFFFFFFFF else (7::uint64_t)) \<noteq> 0xFFFFFFFFFFFFFFFF"
    for t0 :: nat
    by (rule exI[of _ "t0 + 5"]) simp
  have ev: "\<forall>j<unat (clampQueryCount 2 16 8 VK_QUERY_RESULT_WAIT_BIT).
       \<forall>t0::nat. \<exists>t'\<ge>t0. (if t' < 5 then 0xFFFFFFFFFFFFFFFF else (7::uint64_t)) \<noteq> 0xFFFFFFFFFFFFFFFF"
    using ev0 by blast
  have c: "\<exists>ws t'. TimestampQueryPool_GetResults (\<lambda>t off. if t < 5 then 0xFFFFFFFFFFFFFFFF else 7)
      0xFFFFFFFFFFFFFFFF 8 0 2 16 8 VK_QUERY_RESULT_WAIT_BIT 0 = Some (VK_SUCCESS, ws, t')"
    using TimestampQueryPool_GetResults_termination
      [of VK_QUERY_RESULT_WAIT_BIT "\<lambda>t off. if t < 5 then 0xFFFFFFFFFFFFFFFF else 7" "0xFFFFFFFFFFFFFFFF" 8 0 2 16 8 0] w ev
    by blast
  from a b c show ?thesis by blast
qed

section \<open>Stream-output read-back: order, width and placement of the records\<close>

lemma ucast_spec_wrap32: "(ucast v :: uint32_t) = spec_wrap32 v"
  by (simp add: spec_wrap32_def unsigned_of_nat take_bit_eq_mod
        word_eq_iff_unsigned[where ?'a = nat] unsigned_ucast_eq)

lemma unat_spec_wrap32: "unat (spec_wrap32 v) = unat v mod 2 ^ 32"
  by (simp add: ucast_spec_wrap32[symmetric] unsigned_ucast_eq take_bit_eq_mod)

text \<open>
  Claim C4.  In a stream-output read-back whose backend call ends with success or
  not-ready, and where the backend reports for slot \<open>i\<close> the pair needed = \<open>N\<close>,
  written = \<open>W\<close> (and the availability \<open>A\<close>), the stores into the caller's buffer are, slot
  by slot, the record of the public contract: \<open>W\<close> as element 0 and \<open>N\<close> as element 1 (when
  the call succeeded or partial results are allowed), then \<open>A\<close> as element 2, the last
  one, when availability is requested; every element has the width that the caller
  asked for.
\<close>

theorem PalQueryPool_GetResults_xfb_order:
  assumes "queryCount > 0"
    and "PalToVkResult (pal_result (palGetResults (xfb_args flags startQuery queryCount))) = res"
    and "res = VK_SUCCESS \<or> res = VK_NOT_READY"
    and "\<forall>i. i < unat queryCount \<longrightarrow>
           pal_reports flags (pal_scratch (palGetResults (xfb_args flags startQuery queryCount))) i (report i)"
  shows "PalQueryPool_GetResults PalToVkResult palGetResults VK_QUERY_TYPE_TRANSFORM_FEEDBACK_STREAM_EXT
           startQuery queryCount dataSize stride flags =
         (res, concat (map (\<lambda>i. spec_xfb_record flags res (report i) (i * unat (xfb_stride flags stride)))
                        [0..<unat queryCount]))"
proof -
  have eq: "map (\<lambda>i. xfb_write flags res
              (\<lambda>k. pal_scratch (palGetResults (xfb_args flags startQuery queryCount))
                      (i * unat (numXfbQueryDataElems flags) + k))
              (i * unat (xfb_stride flags stride))) [0..<unat queryCount]
      = map (\<lambda>i. spec_xfb_record flags res (report i) (i * unat (xfb_stride flags stride)))
              [0..<unat queryCount]"
    using assms(4) by (intro map_cong[OF refl] xfb_write_spec) simp
  show ?thesis
    by (simp only: PalQueryPool_GetResults_xfb[where PalToVkResult = PalToVkResult and palGetResults = palGetResults
      and flags = flags and startQuery = startQuery and queryCount = queryCount and res = res,
      OF assms(1-3)] eq)
qed

theorem PalQueryPool_GetResults_xfb_order_witness:
  "PalQueryPool_GetResults (\<lambda>r. if r = PalSuccess then VK_SUCCESS else VK_NOT_READY)
     (\<lambda>a. \<lparr>pal_result = PalSuccess, pal_scratch = (\<lambda>k. [7, 3, 1, 9, 4, 1] ! k), pal_stores = []\<rparr>)
     VK_QUERY_TYPE_TRANSFORM_FEEDBACK_STREAM_EXT 0 2 48 24 5 =
   (VK_SUCCESS, [Store64 0 3, Store64 8 7, Store64 16 1, Store64 24 4, Store64 32 9, Store64 40 1])"
proof -
  let ?report = "\<lambda>i::nat. if i = 0 then \<lparr>xfb_needed = 7, xfb_written = 3, xfb_available = 1\<rparr>
                        else \<lparr>xfb_needed = 9, xfb_written = 4, xfb_available = 1\<rparr>"
  have ne: "unat (numXfbQueryDataElems 5) = 3"
    by (simp add: numXfbQueryDataElems_def VK_QUERY_RESULT_WITH_AVAILABILITY_BIT_def)
  have rep: "\<forall>i. i < unat (2::uint32_t) \<longrightarrow>
       pal_reports 5 (pal_scratch \<lparr>pal_result = PalSuccess, pal_scratch = (\<lambda>k. [7, 3, 1, 9, 4, 1] ! k), pal_stores = []\<rparr>)
         i (?report i)"
  proof (intro allI impI)
    fix i :: nat assume "i < unat (2::uint32_t)"
    then have "i = 0 \<or> i = 1" by auto
    then show "pal_reports 5 (pal_scratch \<lparr>pal_result = PalSuccess, pal_scratch = (\<lambda>k. [7, 3, 1, 9, 4, 1] ! k), pal_stores = []\<rparr>)
         i (?report i)"
      by (auto simp: pal_reports_def ne)
  qed
  show ?thesis
    using PalQueryPool_GetResults_xfb_order
      [of 2 "\<lambda>r. if r = PalSuccess then VK_SUCCESS else VK_NOT_READY"
          "\<lambda>a. \<lparr>pal_result = PalSuccess, pal_scratch = (\<lambda>k. [7, 3, 1, 9, 4, 1] ! k), pal_stores = []\<rparr>"
          5 0 VK_SUCCESS ?report 48 24] rep
    by (simp add: upt_rec spec_xfb_record_def spec_put_def xfb_stride_def
          VK_QUERY_RESULT_64_BIT_def VK_QUERY_RESULT_WITH_AVAILABILITY_BIT_def VK_QUERY_RESULT_PARTIAL_BIT_def)
qed

text \<open>
  Claim C7.  With stride 0 the destination pointer is to advance, between consecutive
  records, by the natural size of a record in the caller's format.  The code does so
  for a 64-bit request only.  Line 269 replaces a zero stride by \<open>queryDataStride\<close>, which
  line 249 has set to the stride of the 64-bit scratch records, 8 bytes per element,
  and the width that the caller asked for is not consulted.  In the first call below
  (two slots, 32-bit counters, no availability, a destination of 16 bytes) the natural
  size of a record is 8, but the second record is stored at the offsets 16 to 23, and
  not where a pointer advancing by the natural size puts it.  In the second call (32-bit
  counters with availability, a destination of 24 bytes for two records of 12 bytes)
  the second record is stored at the offsets 24 to 35.  In the third call, a 64-bit
  request, the second record follows the first at its natural size of 16 bytes.
\<close>

theorem PalQueryPool_GetResults_xfb_stride0_32bit:
  "PalQueryPool_GetResults (\<lambda>r. VK_SUCCESS)
          (\<lambda>a. \<lparr>pal_result = PalSuccess, pal_scratch = (\<lambda>k. [7, 3, 9, 4] ! k), pal_stores = []\<rparr>)
          VK_QUERY_TYPE_TRANSFORM_FEEDBACK_STREAM_EXT 0 2 16 0 0
     = (VK_SUCCESS, [Store32 0 3, Store32 4 7, Store32 16 4, Store32 20 9]) \<and>
   spec_xfb_natural_size 0 = 8 \<and>
   snd (PalQueryPool_GetResults (\<lambda>r. VK_SUCCESS)
          (\<lambda>a. \<lparr>pal_result = PalSuccess, pal_scratch = (\<lambda>k. [7, 3, 9, 4] ! k), pal_stores = []\<rparr>)
          VK_QUERY_TYPE_TRANSFORM_FEEDBACK_STREAM_EXT 0 2 16 0 0)
     \<noteq> concat (map (\<lambda>i. xfb_write 0 VK_SUCCESS
                       (\<lambda>k. [7, 3, 9, 4] ! (i * unat (numXfbQueryDataElems 0) + k))
                       (i * spec_xfb_natural_size 0)) [0..<unat (2::uint32_t)]) \<and>
   PalQueryPool_GetResults (\<lambda>r. VK_SUCCESS)
          (\<lambda>a. \<lparr>pal_result = PalSuccess, pal_scratch = (\<lambda>k. [7, 3, 1, 9, 4, 1] ! k), pal_stores = []\<rparr>)
          VK_QUERY_TYPE_TRANSFORM_FEEDBACK_STREAM_EXT 0 2 24 0 VK_QUERY_RESULT_WITH_AVAILABILITY_BIT
     = (VK_SUCCESS, [Store32 0 3, Store32 4 7, Store32 8 1, Store32 24 4, Store32 28 9, Store32 32 1]) \<and>
   spec_xfb_natural_size VK_QUERY_RESULT_WITH_AVAILABILITY_BIT = 12 \<and>
   PalQueryPool_GetResults (\<lambda>r. VK_SUCCESS)
          (\<lambda>a. \<lparr>pal_result = PalSuccess, pal_scratch = (\<lambda>k. [7, 3, 9, 4] ! k), pal_stores = []\<rparr>)
          VK_QUERY_TYPE_TRANSFORM_FEEDBACK_STREAM_EXT 0 2 32 0 VK_QUERY_RESULT_64_BIT
     = (VK_SUCCESS, [Store64 0 3, Store64 8 7, Store64 16 4, Store64 24 9]) \<and>
   spec_xfb_natural_size VK_QUERY_RESULT_64_BIT = 16"
proof -
  have ne: "unat (numXfbQueryDataElems 0) = 2"
    by (simp add: numXfbQueryDataElems_def)
  have one: "PalQueryPool_GetResults (\<lambda>r. VK_SUCCESS)
          (\<lambda>a. \<lparr>pal_result = PalSuccess, pal_scratch = (\<lambda>k. [7, 3, 9, 4] ! k), pal_stores = []\<rparr>)
          VK_QUERY_TYPE_TRANSFORM_FEEDBACK_STREAM_EXT 0 2 16 0 0
        = (VK_SUCCESS, [Store32 0 3, Store32 4 7, Store32 16 4, Store32 20 9])"
    by (subst PalQueryPool_GetResults_xfb[where res = VK_SUCCESS])
       (simp_all add: upt_rec xfb_write_def ne unat_xfb_stride_zero)
  have two: "PalQueryPool_GetResults (\<lambda>r. VK_SUCCESS)
          (\<lambda>a. \<lparr>pal_result = PalSuccess, pal_scratch = (\<lambda>k. [7, 3, 1, 9, 4, 1] ! k), pal_stores = []\<rparr>)
          VK_QUERY_TYPE_TRANSFORM_FEEDBACK_STREAM_EXT 0 2 24 0 VK_QUERY_RESULT_WITH_AVAILABILITY_BIT
        = (VK_SUCCESS, [Store32 0 3, Store32 4 7, Store32 8 1, Store32 24 4, Store32 28 9, Store32 32 1])"
    by (subst PalQueryPool_GetResults_xfb[where res = VK_SUCCESS])
       (simp_all add: upt_rec xfb_write_def xfb_stride_def numXfbQueryDataElems_def
          VK_QUERY_RESULT_64_BIT_def VK_QUERY_RESULT_WITH_AVAILABILITY_BIT_def VK_QUERY_RESULT_PARTIAL_BIT_def)
  have three: "PalQueryPool_GetResults (\<lambda>r. VK_SUCCESS)
          (\<lambda>a. \<lparr>pal_result = PalSuccess, pal_scratch = (\<lambda>k. [7, 3, 9, 4] ! k), pal_stores = []\<rparr>)
          VK_QUERY_TYPE_TRANSFORM_FEEDBACK_STREAM_EXT 0 2 32 0 VK_QUERY_RESULT_64_BIT
        = (VK_SUCCESS, [Store64 0 3, Store64 8 7, Store64 16 4, Store64 24 9])"
    by (subst PalQueryPool_GetResults_xfb[where res = VK_SUCCESS])
       (simp_all add: upt_rec xfb_write_def xfb_stride_def numXfbQueryDataElems_def
          VK_QUERY_RESULT_64_BIT_def VK_QUERY_RESULT_WITH_AVAILABILITY_BIT_def VK_QUERY_RESULT_PARTIAL_BIT_def)
  have sizes: "spec_xfb_natural_size 0 = 8"
    "spec_xfb_natural_size VK_QUERY_RESULT_WITH_AVAILABILITY_BIT = 12"
    "spec_xfb_natural_size VK_QUERY_RESULT_64_BIT = 16"
    by (simp_all add: spec_xfb_natural_size_def
          VK_QUERY_RESULT_64_BIT_def VK_QUERY_RESULT_WITH_AVAILABILITY_BIT_def)
  have differ: "snd (PalQueryPool_GetResults (\<lambda>r. VK_SUCCESS)
          (\<lambda>a. \<lparr>pal_result = PalSuccess, pal_scratch = (\<lambda>k. [7, 3, 9, 4] ! k), pal_stores = []\<rparr>)
          VK_QUERY_TYPE_TRANSFORM_FEEDBACK_STREAM_EXT 0 2 16 0 0)
     \<noteq> concat (map (\<lambda>i. xfb_write 0 VK_SUCCESS
                       (\<lambda>k. [7, 3, 9, 4] ! (i * unat (numXfbQueryDataElems 0) + k))
                       (i * spec_xfb_natural_size 0)) [0..<unat (2::uint32_t)])"
    unfolding one by (simp add: upt_rec xfb_write_def ne spec_xfb_natural_size_def)
  from one two three sizes differ show ?thesis by blast
qed

section \<open>The caller's buffer is never overrun by the timestamp read-back\<close>

lemma PalQueryPool_GetResults_xfb_error:
  assumes "queryCount > 0"
    and "PalToVkResult (pal_result (palGetResults (xfb_args flags startQuery queryCount))) = res"
    and "res \<noteq> VK_SUCCESS" and "res \<noteq> VK_NOT_READY"
  shows "PalQueryPool_GetResults PalToVkResult palGetResults VK_QUERY_TYPE_TRANSFORM_FEEDBACK_STREAM_EXT
           startQuery queryCount dataSize stride flags = (res, [])"
proof -
  have args: "\<lparr>pal_flags = flags OR VK_QUERY_RESULT_64_BIT, pal_startQuery = startQuery,
      pal_queryCount = queryCount,
      pal_dataSize = 8 * ucast (numXfbQueryDataElems flags) * ucast queryCount,
      pal_intoScratch = True,
      pal_stride = 8 * ucast (numXfbQueryDataElems flags)\<rparr> = xfb_args flags startQuery queryCount"
    by (simp add: xfb_args_def)
  show ?thesis
    unfolding PalQueryPool_GetResults_def Let_def
    apply (simp only: assms(1) if_True simp_thms args assms(2))
    using assms(3,4) apply simp
    done
qed

text \<open>
  Claim C3, as stated, fails for the hardware-delegating pool: its stream-output path
  does not clamp.  In the call below \<open>queryCount * stride = dataSize = 16\<close>, the records
  are 12 bytes long (two 32-bit counters and the availability), and the availability of
  the second slot is stored at the offsets 16 to 19.
\<close>

theorem PalQueryPool_GetResults_overrun_counterexample:
  "\<not> (\<forall>s \<in> set (snd (PalQueryPool_GetResults (\<lambda>r. VK_SUCCESS)
                    (\<lambda>a. \<lparr>pal_result = PalSuccess, pal_scratch = (\<lambda>k. 0), pal_stores = []\<rparr>)
                    VK_QUERY_TYPE_TRANSFORM_FEEDBACK_STREAM_EXT 0 2 16 8
                    VK_QUERY_RESULT_WITH_AVAILABILITY_BIT)).
        footprint s \<subseteq> {..<unat (16 :: size_t)})"
proof -
  have "PalQueryPool_GetResults (\<lambda>r. VK_SUCCESS)
          (\<lambda>a. \<lparr>pal_result = PalSuccess, pal_scratch = (\<lambda>k. 0), pal_stores = []\<rparr>)
          VK_QUERY_TYPE_TRANSFORM_FEEDBACK_STREAM_EXT 0 2 16 8 VK_QUERY_RESULT_WITH_AVAILABILITY_BIT
        = (VK_SUCCESS, [Store32 0 0, Store32 4 0, Store32 8 0, Store32 8 0, Store32 12 0, Store32 16 0])"
    by (subst PalQueryPool_GetResults_xfb[where res = VK_SUCCESS])
       (simp_all add: upt_rec xfb_write_def xfb_stride_def numXfbQueryDataElems_def
          VK_QUERY_RESULT_64_BIT_def VK_QUERY_RESULT_WITH_AVAILABILITY_BIT_def VK_QUERY_RESULT_PARTIAL_BIT_def)
  moreover have "16 \<in> footprint (Store32 16 0)" by (simp add: footprint_def)
  moreover have "16 \<notin> {..<unat (16 :: size_t)}" by simp
  ultimately show ?thesis by auto
qed

text \<open>
  Claim C3, amended.  The timestamp variant never writes at a byte offset at or beyond
  \<open>dataSize\<close>, for every \<open>queryCount\<close>, \<open>stride\<close> (0 included), \<open>dataSize\<close> and flags: the
  number of slots written is at most \<open>dataSize / max(perSlotOutputSize, stride)\<close>, every
  store that the loop can make for a slot below that number lies inside the first
  \<open>dataSize\<close> bytes, and a call that returns has made only such stores.  The
  stream-output path of the hardware-delegating variant does not clamp; called with a
  stride that is not zero, its stores lie inside the first \<open>dataSize\<close> bytes when the
  caller's buffer holds the last record, that is when
  \<open>(queryCount - 1) * stride + n * w \<le> dataSize\<close>, \<open>n\<close> being the number of elements of a
  record and \<open>w\<close> their width.  (For the other kinds of the hardware-delegating variant
  the backend writes the buffer.)
\<close>

theorem GetResults_stays_in_buffer:
  "unat (clampQueryCount queryCount dataSize stride flags)
      \<le> unat dataSize div max (unat (querySlotSize flags)) (unat stride) \<and>
   (\<forall>j v r s. j < unat (clampQueryCount queryCount dataSize stride flags) \<longrightarrow>
        s \<in> set (write_slot flags (slotDataOffset stride j) v r) \<longrightarrow>
        footprint s \<subseteq> {..<unat dataSize}) \<and>
   (\<forall>res ws t'.
        TimestampQueryPool_GetResults src notReady slotSize startQuery queryCount dataSize stride flags t
          = Some (res, ws, t') \<longrightarrow>
        (\<forall>s \<in> set ws. footprint s \<subseteq> {..<unat dataSize})) \<and>
   (stride \<noteq> 0 \<longrightarrow>
    (unat queryCount - 1) * unat stride + spec_xfb_natural_size flags \<le> unat dataSize \<longrightarrow>
        (\<forall>s \<in> set (snd (PalQueryPool_GetResults PalToVkResult palGetResults
                            VK_QUERY_TYPE_TRANSFORM_FEEDBACK_STREAM_EXT startQuery queryCount dataSize stride flags)).
           footprint s \<subseteq> {..<unat dataSize}))"
proof (intro conjI allI impI ballI)
  let ?M = "max (unat (querySlotSize flags)) (unat stride)"
  have "0 < ?M" using querySlotSize_pos[of flags] by simp
  with clampQueryCount_bound[of queryCount dataSize stride flags]
  show "unat (clampQueryCount queryCount dataSize stride flags) \<le> unat dataSize div ?M"
    by (simp add: less_eq_div_iff_mult_less_eq)
next
  fix j v r s
  assume "j < unat (clampQueryCount queryCount dataSize stride flags)"
    and "s \<in> set (write_slot flags (slotDataOffset stride j) v r)"
  then show "footprint s \<subseteq> {..<unat dataSize}" by (rule write_slot_in_bounds)
next
  fix res ws t' s
  assume g: "TimestampQueryPool_GetResults src notReady slotSize startQuery queryCount dataSize stride flags t
          = Some (res, ws, t')" and s: "s \<in> set ws"
  from GetResults_writes[OF g s] obtain j v r where
    "j < unat (clampQueryCount queryCount dataSize stride flags)"
    "s \<in> set (write_slot flags (slotDataOffset stride j) v r)" by blast
  then show "footprint s \<subseteq> {..<unat dataSize}" by (rule write_slot_in_bounds)
next
  fix s
  assume nz: "stride \<noteq> 0"
    and fit0: "(unat queryCount - 1) * unat stride + spec_xfb_natural_size flags \<le> unat dataSize"
    and s: "s \<in> set (snd (PalQueryPool_GetResults PalToVkResult palGetResults
                            VK_QUERY_TYPE_TRANSFORM_FEEDBACK_STREAM_EXT startQuery queryCount dataSize stride flags))"
  define res where "res = PalToVkResult (pal_result (palGetResults (xfb_args flags startQuery queryCount)))"
  have str: "xfb_stride flags stride = stride" using nz by (simp add: xfb_stride_def)
  have fit: "(unat queryCount - 1) * unat (xfb_stride flags stride) + spec_xfb_natural_size flags \<le> unat dataSize"
    using fit0 by (simp only: str)
  show "footprint s \<subseteq> {..<unat dataSize}"
  proof (cases "queryCount > 0")
    case False
    with s show ?thesis by (simp add: PalQueryPool_GetResults_def)
  next
    case pos: True
    show ?thesis
    proof (cases "res = VK_SUCCESS \<or> res = VK_NOT_READY")
      case False
      then have "PalQueryPool_GetResults PalToVkResult palGetResults VK_QUERY_TYPE_TRANSFORM_FEEDBACK_STREAM_EXT
           startQuery queryCount dataSize stride flags = (res, [])"
        using pos res_def by (intro PalQueryPool_GetResults_xfb_error) auto
      with s show ?thesis by simp
    next
      case True
      have "PalQueryPool_GetResults PalToVkResult palGetResults VK_QUERY_TYPE_TRANSFORM_FEEDBACK_STREAM_EXT
           startQuery queryCount dataSize stride flags =
         (res, concat (map (\<lambda>i. xfb_write flags res
              (\<lambda>k. pal_scratch (palGetResults (xfb_args flags startQuery queryCount))
                      (i * unat (numXfbQueryDataElems flags) + k))
              (i * unat (xfb_stride flags stride))) [0..<unat queryCount]))"
        using pos res_def True by (intro PalQueryPool_GetResults_xfb) auto
      with s obtain i where i: "i < unat queryCount"
        and si: "s \<in> set (xfb_write flags res
              (\<lambda>k. pal_scratch (palGetResults (xfb_args flags startQuery queryCount))
                      (i * unat (numXfbQueryDataElems flags) + k))
              (i * unat (xfb_stride flags stride)))"
        by auto
      from i have "i * unat (xfb_stride flags stride) \<le> (unat queryCount - 1) * unat (xfb_stride flags stride)"
        by (intro mult_le_mono1) simp
      then have "i * unat (xfb_stride flags stride) + spec_xfb_natural_size flags
              \<le> (unat queryCount - 1) * unat (xfb_stride flags stride) + spec_xfb_natural_size flags"
        by (rule add_right_mono)
      from this fit have "i * unat (xfb_stride flags stride) + spec_xfb_natural_size flags \<le> unat dataSize"
        by (rule le_trans)
      with footprint_xfb_write[OF si] show ?thesis by auto
    qed
  qed
qed

theorem GetResults_stays_in_buffer_witness:
  "unat (clampQueryCount 5 20 0 VK_QUERY_RESULT_WITH_AVAILABILITY_BIT) = 2 \<and>
   footprint (Store32 4 0) \<subseteq> {..<unat (20 :: size_t)} \<and>
   (\<exists>res ws t'. TimestampQueryPool_GetResults (\<lambda>t off. 7) 0xFFFFFFFFFFFFFFFF 8 0 5 20 0
        VK_QUERY_RESULT_WITH_AVAILABILITY_BIT 0 = Some (res, ws, t') \<and>
      list_all (\<lambda>s. footprint s \<subseteq> {..<unat (20 :: size_t)}) ws) \<and>
   list_all (\<lambda>s. footprint s \<subseteq> {..<unat (24 :: size_t)})
     (snd (PalQueryPool_GetResults (\<lambda>r. VK_SUCCESS)
            (\<lambda>a. \<lparr>pal_result = PalSuccess, pal_scratch = (\<lambda>k. 0), pal_stores = []\<rparr>)
            VK_QUERY_TYPE_TRANSFORM_FEEDBACK_STREAM_EXT 0 2 24 12 VK_QUERY_RESULT_WITH_AVAILABILITY_BIT))"
proof -
  note th = GetResults_stays_in_buffer
      [of 5 20 0 VK_QUERY_RESULT_WITH_AVAILABILITY_BIT "\<lambda>t off. 7" "0xFFFFFFFFFFFFFFFF" 8 0 0
          "\<lambda>r. VK_SUCCESS" "\<lambda>a. \<lparr>pal_result = PalSuccess, pal_scratch = (\<lambda>k. 0), pal_stores = []\<rparr>"]
  have n: "unat (clampQueryCount 5 20 0 VK_QUERY_RESULT_WITH_AVAILABILITY_BIT) = 2"
    by (simp add: clampQueryCount_def querySlotSize_def queryValueSize_def
          VK_QUERY_RESULT_64_BIT_def VK_QUERY_RESULT_WITH_AVAILABILITY_BIT_def)
  have nw: "VK_QUERY_RESULT_WITH_AVAILABILITY_BIT AND VK_QUERY_RESULT_WAIT_BIT = 0"
    by (simp add: VK_QUERY_RESULT_WAIT_BIT_def VK_QUERY_RESULT_WITH_AVAILABILITY_BIT_def)
  have "Store32 4 0 \<in> set (write_slot VK_QUERY_RESULT_WITH_AVAILABILITY_BIT (slotDataOffset 0 1) 7 False)"
    by (simp add: write_slot_def slotDataOffset_def
          VK_QUERY_RESULT_64_BIT_def VK_QUERY_RESULT_WITH_AVAILABILITY_BIT_def)
  with th n have a: "footprint (Store32 4 0) \<subseteq> {..<unat (20 :: size_t)}"
    by (metis one_less_numeral_iff semiring_norm(76))
  obtain res ws t' where g: "TimestampQueryPool_GetResults (\<lambda>t off. 7) 0xFFFFFFFFFFFFFFFF 8 0 5 20 0
        VK_QUERY_RESULT_WITH_AVAILABILITY_BIT 0 = Some (res, ws, t')"
    using GetResults_nowait[of 5 VK_QUERY_RESULT_WITH_AVAILABILITY_BIT "\<lambda>t off. 7" "0xFFFFFFFFFFFFFFFF" 8 0 20 0 0] nw
    by simp
  with th have "\<forall>s \<in> set ws. footprint s \<subseteq> {..<unat (20 :: size_t)}" by blast
  with g have b: "\<exists>res ws t'. TimestampQueryPool_GetResults (\<lambda>t off. 7) 0xFFFFFFFFFFFFFFFF 8 0 5 20 0
        VK_QUERY_RESULT_WITH_AVAILABILITY_BIT 0 = Some (res, ws, t') \<and>
      list_all (\<lambda>s. footprint s \<subseteq> {..<unat (20 :: size_t)}) ws"
    by (auto simp: list_all_iff)
  have fit: "(12 :: VkDeviceSize) \<noteq> 0"
    "(unat (2::uint32_t) - 1) * unat (12 :: VkDeviceSize) +
           spec_xfb_natural_size VK_QUERY_RESULT_WITH_AVAILABILITY_BIT \<le> unat (24 :: size_t)"
    by (simp_all add: spec_xfb_natural_size_def
          VK_QUERY_RESULT_64_BIT_def VK_QUERY_RESULT_WITH_AVAILABILITY_BIT_def)
  have c: "list_all (\<lambda>s. footprint s \<subseteq> {..<unat (24 :: size_t)})
     (snd (PalQueryPool_GetResults (\<lambda>r. VK_SUCCESS)
            (\<lambda>a. \<lparr>pal_result = PalSuccess, pal_scratch = (\<lambda>k. 0), pal_stores = []\<rparr>)
            VK_QUERY_TYPE_TRANSFORM_FEEDBACK_STREAM_EXT 0 2 24 12 VK_QUERY_RESULT_WITH_AVAILABILITY_BIT))"
    using GetResults_stays_in_buffer
      [of 2 24 12 VK_QUERY_RESULT_WITH_AVAILABILITY_BIT "\<lambda>t off. 7" "0xFFFFFFFFFFFFFFFF" 8 0 0
          "\<lambda>r. VK_SUCCESS" "\<lambda>a. \<lparr>pal_result = PalSuccess, pal_scratch = (\<lambda>k. 0), pal_stores = []\<rparr>"] fit
    unfolding list_all_iff by blast
  from n a b c show ?thesis by blast
qed

section \<open>32-bit results wrap\<close>

lemma write_slot_32:
  "flags AND VK_QUERY_RESULT_64_BIT = 0 \<Longrightarrow>
   write_slot flags off v r =
     (if r then [Store32 off (spec_wrap32 v)] else []) @
     (if flags AND VK_QUERY_RESULT_WITH_AVAILABILITY_BIT \<noteq> 0
      then [Store32 (off + 4) (if r then 1 else 0)] else [])"
  by (simp add: write_slot_def ucast_spec_wrap32)

lemma xfb_write_32:
  "flags AND VK_QUERY_RESULT_64_BIT = 0 \<Longrightarrow>
   xfb_write flags res p off =
     (if res = VK_SUCCESS \<or> flags AND VK_QUERY_RESULT_PARTIAL_BIT \<noteq> 0
      then [Store32 off (spec_wrap32 (p 1)), Store32 (off + 4) (spec_wrap32 (p 0))] else []) @
     (if flags AND VK_QUERY_RESULT_WITH_AVAILABILITY_BIT \<noteq> 0
      then [Store32 (off + 8) (spec_wrap32 (p 2))] else [])"
  by (simp add: xfb_write_def ucast_spec_wrap32)

text \<open>
  Claim C6.  When the caller does not set the 64-bit flag, every 64-bit source value
  \<open>v\<close> is stored as the 32-bit word \<open>v mod 2^32\<close>, in both read-backs.  In the timestamp
  read-back a call that returns has stored, for every examined slot whose word \<open>v\<close> is
  not the sentinel, exactly \<open>v mod 2^32\<close> (and the availability, when requested); its
  status is success or not-ready, decided by the sentinel alone and never by the size
  of a value.  In the stream-output read-back the counters and the availability that
  the backend reports are each stored modulo \<open>2^32\<close>, and the status is the backend's.
\<close>

theorem GetResults_32_bit_wraps:
  assumes "flags AND VK_QUERY_RESULT_64_BIT = 0" and "queryCount > 0"
  shows "unat (spec_wrap32 v) = unat v mod 2 ^ 32 \<and>
    (\<forall>res ws t'.
       TimestampQueryPool_GetResults src notReady slotSize startQuery queryCount dataSize stride flags t
         = Some (res, ws, t') \<longrightarrow>
       (\<exists>rd. (\<forall>j. j < unat (clampQueryCount queryCount dataSize stride flags) \<longrightarrow>
                  t \<le> rd j \<and> rd j < t') \<and>
             ws = concat (map (\<lambda>j.
                  (if slot_value src rd slotSize startQuery j \<noteq> notReady
                   then [Store32 (slotDataOffset stride j)
                           (spec_wrap32 (slot_value src rd slotSize startQuery j))]
                   else []) @
                  (if flags AND VK_QUERY_RESULT_WITH_AVAILABILITY_BIT \<noteq> 0
                   then [Store32 (slotDataOffset stride j + 4)
                           (if slot_value src rd slotSize startQuery j \<noteq> notReady then 1 else 0)]
                   else []))
                [0..<unat (clampQueryCount queryCount dataSize stride flags)]) \<and>
             res = (if \<forall>j. j < unat (clampQueryCount queryCount dataSize stride flags) \<longrightarrow>
                          slot_value src rd slotSize startQuery j \<noteq> notReady
                    then VK_SUCCESS else VK_NOT_READY))) \<and>
    (\<forall>res. PalToVkResult (pal_result (palGetResults (xfb_args flags startQuery queryCount))) = res \<longrightarrow>
       (res = VK_SUCCESS \<or> res = VK_NOT_READY) \<longrightarrow>
       PalQueryPool_GetResults PalToVkResult palGetResults VK_QUERY_TYPE_TRANSFORM_FEEDBACK_STREAM_EXT
           startQuery queryCount dataSize stride flags =
         (res, concat (map (\<lambda>i.
            (if res = VK_SUCCESS \<or> flags AND VK_QUERY_RESULT_PARTIAL_BIT \<noteq> 0
             then [Store32 (i * unat (xfb_stride flags stride))
                     (spec_wrap32 (pal_scratch (palGetResults (xfb_args flags startQuery queryCount))
                                     (i * unat (numXfbQueryDataElems flags) + 1))),
                   Store32 (i * unat (xfb_stride flags stride) + 4)
                     (spec_wrap32 (pal_scratch (palGetResults (xfb_args flags startQuery queryCount))
                                     (i * unat (numXfbQueryDataElems flags) + 0)))]
             else []) @
            (if flags AND VK_QUERY_RESULT_WITH_AVAILABILITY_BIT \<noteq> 0
             then [Store32 (i * unat (xfb_stride flags stride) + 8)
                     (spec_wrap32 (pal_scratch (palGetResults (xfb_args flags startQuery queryCount))
                                     (i * unat (numXfbQueryDataElems flags) + 2)))]
             else []))
          [0..<unat queryCount])))"
proof (intro conjI allI impI)
  show "unat (spec_wrap32 v) = unat v mod 2 ^ 32" by (rule unat_spec_wrap32)
next
  fix res ws t'
  assume g: "TimestampQueryPool_GetResults src notReady slotSize startQuery queryCount dataSize stride flags t
         = Some (res, ws, t')"
  from GetResults_trace[OF g assms(2)] obtain rd where
    rd: "\<forall>j. j < unat (clampQueryCount queryCount dataSize stride flags) \<longrightarrow>
            t \<le> rd j \<and> rd j < t'"
    and ws: "ws = concat (map (\<lambda>j. write_slot flags (slotDataOffset stride j)
                        (slot_value src rd slotSize startQuery j)
                        (slot_value src rd slotSize startQuery j \<noteq> notReady))
                  [0..<unat (clampQueryCount queryCount dataSize stride flags)])"
    and res: "res = (if \<forall>j. j < unat (clampQueryCount queryCount dataSize stride flags) \<longrightarrow>
                     slot_value src rd slotSize startQuery j \<noteq> notReady
               then VK_SUCCESS else VK_NOT_READY)"
    by blast
  show "\<exists>rd. (\<forall>j. j < unat (clampQueryCount queryCount dataSize stride flags) \<longrightarrow>
                  t \<le> rd j \<and> rd j < t') \<and>
             ws = concat (map (\<lambda>j.
                  (if slot_value src rd slotSize startQuery j \<noteq> notReady
                   then [Store32 (slotDataOffset stride j)
                           (spec_wrap32 (slot_value src rd slotSize startQuery j))]
                   else []) @
                  (if flags AND VK_QUERY_RESULT_WITH_AVAILABILITY_BIT \<noteq> 0
                   then [Store32 (slotDataOffset stride j + 4)
                           (if slot_value src rd slotSize startQuery j \<noteq> notReady then 1 else 0)]
                   else []))
                [0..<unat (clampQueryCount queryCount dataSize stride flags)]) \<and>
             res = (if \<forall>j. j < unat (clampQueryCount queryCount dataSize stride flags) \<longrightarrow>
                          slot_value src rd slotSize startQuery j \<noteq> notReady
                    then VK_SUCCESS else VK_NOT_READY)"
    by (rule exI[of _ rd], rule conjI, rule rd) (simp only: ws res write_slot_32[OF assms(1)] simp_thms)
next
  fix res
  assume r: "PalToVkResult (pal_result (palGetResults (xfb_args flags startQuery queryCount))) = res"
    and ok: "res = VK_SUCCESS \<or> res = VK_NOT_READY"
  show "PalQueryPool_GetResults PalToVkResult palGetResults VK_QUERY_TYPE_TRANSFORM_FEEDBACK_STREAM_EXT
           startQuery queryCount dataSize stride flags =
         (res, concat (map (\<lambda>i.
            (if res = VK_SUCCESS \<or> flags AND VK_QUERY_RESULT_PARTIAL_BIT \<noteq> 0
             then [Store32 (i * unat (xfb_stride flags stride))
                     (spec_wrap32 (pal_scratch (palGetResults (xfb_args flags startQuery queryCount))
                                     (i * unat (numXfbQueryDataElems flags) + 1))),
                   Store32 (i * unat (xfb_stride flags stride) + 4)
                     (spec_wrap32 (pal_scratch (palGetResults (xfb_args flags startQuery queryCount))
                                     (i * unat (numXfbQueryDataElems flags) + 0)))]
             else []) @
            (if flags AND VK_QUERY_RESULT_WITH_AVAILABILITY_BIT \<noteq> 0
             then [Store32 (i * unat (xfb_stride flags stride) + 8)
                     (spec_wrap32 (pal_scratch (palGetResults (xfb_args flags startQuery queryCount))
                                     (i * unat (numXfbQueryDataElems flags) + 2)))]
             else []))
          [0..<unat queryCount]))"
    by (simp only: PalQueryPool_GetResults_xfb[where PalToVkResult = PalToVkResult
          and palGetResults = palGetResults and flags = flags and startQuery = startQuery
          and queryCount = queryCount and res = res, OF assms(2) r ok] xfb_write_32[OF assms(1)])
qed

theorem GetResults_32_bit_wraps_witness:
  "unat (spec_wrap32 0x100000005) = 5 \<and>
   TimestampQueryPool_GetResults (\<lambda>t off. 0x100000005) 0xFFFFFFFFFFFFFFFF 8 0 1 8 8 0 0
     = Some (VK_SUCCESS, [Store32 0 5], 1) \<and>
   PalQueryPool_GetResults (\<lambda>r. VK_SUCCESS)
     (\<lambda>a. \<lparr>pal_result = PalSuccess, pal_scratch = (\<lambda>k. [0x100000007, 0x200000003] ! k), pal_stores = []\<rparr>)
     VK_QUERY_TYPE_TRANSFORM_FEEDBACK_STREAM_EXT 0 1 8 8 0
     = (VK_SUCCESS, [Store32 0 3, Store32 4 7])"
proof -
  note th = GetResults_32_bit_wraps
     [of 0 1 "0x100000005" "\<lambda>t off. 0x100000005" "0xFFFFFFFFFFFFFFFF" 8 0 8 8 0
         "\<lambda>r. VK_SUCCESS"
         "\<lambda>a. \<lparr>pal_result = PalSuccess, pal_scratch = (\<lambda>k. [0x100000007, 0x200000003] ! k), pal_stores = []\<rparr>" ]
  have w5: "spec_wrap32 0x100000005 = 5" "spec_wrap32 0x100000007 = 7" "spec_wrap32 0x200000003 = 3"
    by (simp_all add: spec_wrap32_def)
  have a: "unat (spec_wrap32 0x100000005) = 5" using th by simp
  have n: "unat (clampQueryCount 1 8 8 0) = 1"
    by (simp add: clampQueryCount_def querySlotSize_def queryValueSize_def)
  obtain res ws t' where g: "TimestampQueryPool_GetResults (\<lambda>t off. 0x100000005) 0xFFFFFFFFFFFFFFFF 8 0 1 8 8 0 0
        = Some (res, ws, t')" and t': "t' = 1"
    using GetResults_nowait[of 1 0 "\<lambda>t off. 0x100000005" "0xFFFFFFFFFFFFFFFF" 8 0 8 8 0] n by simp
  with th have "ws = [Store32 0 5] \<and> res = VK_SUCCESS"
    by (simp add: n slot_value_def slotDataOffset_def w5)
  with g t' have b: "TimestampQueryPool_GetResults (\<lambda>t off. 0x100000005) 0xFFFFFFFFFFFFFFFF 8 0 1 8 8 0 0
     = Some (VK_SUCCESS, [Store32 0 5], 1)" by simp
  have c: "PalQueryPool_GetResults (\<lambda>r. VK_SUCCESS)
     (\<lambda>a. \<lparr>pal_result = PalSuccess, pal_scratch = (\<lambda>k. [0x100000007, 0x200000003] ! k), pal_stores = []\<rparr>)
     VK_QUERY_TYPE_TRANSFORM_FEEDBACK_STREAM_EXT 0 1 8 8 0
     = (VK_SUCCESS, [Store32 0 3, Store32 4 7])"
    using th by (simp add: w5 xfb_stride_def numXfbQueryDataElems_def)
  from a b c show ?thesis by blast
qed

section \<open>The destination memory after a call\<close>

lemma apply_stores_Nil [simp]: "apply_stores [] mem = mem"
  by (simp add: apply_stores_def)

lemma apply_stores_Cons [simp]: "apply_stores (s # ws) mem = apply_stores ws (apply_store s mem)"
  by (simp add: apply_stores_def)

lemma apply_stores_append [simp]:
  "apply_stores (xs @ ys) mem = apply_stores ys (apply_stores xs mem)"
  by (simp add: apply_stores_def)

lemma apply_store_frame: "a \<notin> footprint s \<Longrightarrow> apply_store s mem a = mem a"
  by (cases s) (auto simp: footprint_def)

lemma apply_stores_frame:
  "(\<And>s. s \<in> set ws \<Longrightarrow> a \<notin> footprint s) \<Longrightarrow> apply_stores ws mem a = mem a"
  by (induction ws arbitrary: mem) (simp_all add: apply_store_frame)

lemma apply_store_inside:
  "a \<in> footprint s \<Longrightarrow> apply_store s mem a = apply_store s mem' a"
  by (cases s) (auto simp: footprint_def)

lemma byte_of_zero [simp]: "byte_of 0 k = 0"
  by (simp add: byte_of_def)

lemma apply_store_zero32: "off \<le> a \<Longrightarrow> a < off + 4 \<Longrightarrow> apply_store (Store32 off 0) mem a = 0"
  by simp

lemma apply_store_zero64: "off \<le> a \<Longrightarrow> a < off + 8 \<Longrightarrow> apply_store (Store64 off 0) mem a = 0"
  by simp

lemma concat_map_upt_split:
  assumes "j < n"
  shows "concat (map f [0..<n]) = concat (map f [0..<j]) @ f j @ concat (map f [Suc j..<n])"
proof -
  have "[0..<n] = [0..<j] @ [j..<n]"
    using assms upt_add_eq_append[of 0 j "n - j"] by simp
  also have "[j..<n] = j # [Suc j..<n]"
    using assms by (rule upt_conv_Cons)
  finally have "[0..<n] = [0..<j] @ j # [Suc j..<n]" .
  then show ?thesis by simp
qed

lemma in_concat_map_upt:
  "s \<in> set (concat (map f [i..<n])) \<Longrightarrow> \<exists>k. i \<le> k \<and> k < n \<and> s \<in> set (f k)"
  by auto

section \<open>Slots that are not ready\<close>

lemma write_slot_not_ready:
  "write_slot flags off v False =
     (if flags AND VK_QUERY_RESULT_WITH_AVAILABILITY_BIT \<noteq> 0
      then [if flags AND VK_QUERY_RESULT_64_BIT \<noteq> 0 then Store64 (off + 8) 0 else Store32 (off + 4) 0]
      else [])"
  by (simp add: write_slot_def)

lemma footprint_write_slot_not_ready:
  "s \<in> set (write_slot flags off v False) \<Longrightarrow>
   footprint s \<subseteq> {off + unat (queryValueSize flags) ..< off + 2 * unat (queryValueSize flags)}"
  by (auto simp: write_slot_not_ready footprint_def unat_queryValueSize split: if_splits)

lemma queryValueSize_le_querySlotSize: "unat (queryValueSize flags) \<le> unat (querySlotSize flags)"
  by (simp add: unat_querySlotSize)

lemma other_slot_disjoint:
  assumes ov: "unat (querySlotSize flags) \<le> unat stride"
    and k: "k < unat (clampQueryCount queryCount dataSize stride flags)"
    and j: "j < unat (clampQueryCount queryCount dataSize stride flags)"
    and ne: "k \<noteq> j"
    and s: "s \<in> set (write_slot flags (slotDataOffset stride k) v r)"
    and a: "slotDataOffset stride j \<le> a" "a < slotDataOffset stride j + unat (querySlotSize flags)"
  shows "a \<notin> footprint s"
proof -
  have fk: "footprint s \<subseteq> {k * unat stride ..< k * unat stride + unat (querySlotSize flags)}"
    using footprint_write_slot[OF s] slotDataOffset_exact(1)[OF k] by simp
  have aj: "j * unat stride \<le> a" "a < j * unat stride + unat (querySlotSize flags)"
    using a slotDataOffset_exact(1)[OF j] by simp_all
  show ?thesis
  proof (cases "k < j")
    case True
    then have "Suc k * unat stride \<le> j * unat stride" by (intro mult_le_mono1) simp
    then have "k * unat stride + unat (querySlotSize flags) \<le> j * unat stride" using ov by simp
    with aj fk show ?thesis by auto
  next
    case False
    with ne have "Suc j \<le> k" by simp
    then have "Suc j * unat stride \<le> k * unat stride" by (intro mult_le_mono1)
    then have "j * unat stride + unat (querySlotSize flags) \<le> k * unat stride" using ov by simp
    with aj fk show ?thesis by auto
  qed
qed

text \<open>
  Claim C2, as stated, fails when the records overlap.  In the call below the stride is
  0, so both slots have their record at offset 0.  Slot 0 holds the sentinel, slot 1
  holds 5: the call returns not-ready and the value bytes of slot 0's record, which were
  0, hold 5 afterwards.
\<close>

theorem TimestampQueryPool_GetResults_not_ready_counterexample:
  "observed (\<lambda>t off. if off = 0 then 0xFFFFFFFFFFFFFFFF else 5) 0 8 0 0 = 0xFFFFFFFFFFFFFFFF \<and>
   slotDataOffset 0 0 = 0 \<and>
   TimestampQueryPool_GetResults (\<lambda>t off. if off = 0 then 0xFFFFFFFFFFFFFFFF else 5)
      0xFFFFFFFFFFFFFFFF 8 0 2 8 0 0 0 = Some (VK_NOT_READY, [Store32 0 5], 2) \<and>
   apply_stores [Store32 0 5] (\<lambda>a. 0) 0 \<noteq> (\<lambda>a. 0) 0"
proof -
  have n: "unat (clampQueryCount 2 8 0 0) = 2"
    by (simp add: clampQueryCount_def querySlotSize_def queryValueSize_def)
  have o: "observed (\<lambda>t off. if off = 0 then 0xFFFFFFFFFFFFFFFF else 5) 0 8 0 0 = 0xFFFFFFFFFFFFFFFF"
    "observed (\<lambda>t off. if off = 0 then 0xFFFFFFFFFFFFFFFF else 5) 0 8 0 (Suc 0) = 5"
    by (simp_all add: observed_def srcSlotOffset_def)
  have ex: "\<exists>j<2. observed (\<lambda>t off. if off = 0 then 0xFFFFFFFFFFFFFFFF else 5) 0 8 0 j = (0xFFFFFFFFFFFFFFFF::uint64_t)"
    using o by (intro exI[of _ 0]) simp
  have "TimestampQueryPool_GetResults (\<lambda>t off. if off = 0 then 0xFFFFFFFFFFFFFFFF else 5)
      0xFFFFFFFFFFFFFFFF 8 0 2 8 0 0 0 = Some (VK_NOT_READY, [Store32 0 5], 2)"
    by (subst GetResults_nowait) (use ex in \<open>simp_all add: n o upt_rec write_slot_def slotDataOffset_def\<close>)
  moreover have "apply_stores [Store32 0 5] (\<lambda>a. 0) 0 \<noteq> (\<lambda>a. 0) 0"
    by (simp add: byte_of_def)
  ultimately show ?thesis using o by (simp add: slotDataOffset_def)
qed

text \<open>
  Claim C2, amended.  For every timestamp-pool \<open>GetResults\<close> call with \<open>queryCount > 0\<close> and
  the WAIT flag clear, the call returns success iff the word of every examined slot
  differs from the not-ready sentinel, and otherwise the not-ready status.  For each
  examined slot whose word equals the sentinel, the iteration of that slot stores no
  counter value: it stores the availability 0 when availability is requested, and
  nothing else.  When the records do not overlap (\<open>stride \<ge> perSlotOutputSize\<close>), the
  value bytes of such a slot's record are the same after the call as before it, and the
  bytes of its availability word, if requested, are 0.
\<close>

theorem TimestampQueryPool_GetResults_not_ready:
  assumes "queryCount > 0" and "flags AND VK_QUERY_RESULT_WAIT_BIT = 0"
  shows "\<exists>ws. TimestampQueryPool_GetResults src notReady slotSize startQuery queryCount dataSize stride flags t =
           Some (if \<forall>j < unat (clampQueryCount queryCount dataSize stride flags).
                       observed src t slotSize startQuery j \<noteq> notReady
                 then VK_SUCCESS else VK_NOT_READY,
                 ws, t + unat (clampQueryCount queryCount dataSize stride flags)) \<and>
           ws = concat (map (\<lambda>j. write_slot flags (slotDataOffset stride j)
                       (observed src t slotSize startQuery j)
                       (observed src t slotSize startQuery j \<noteq> notReady))
                    [0..<unat (clampQueryCount queryCount dataSize stride flags)]) \<and>
           (\<forall>j. j < unat (clampQueryCount queryCount dataSize stride flags) \<longrightarrow>
                observed src t slotSize startQuery j = notReady \<longrightarrow>
                write_slot flags (slotDataOffset stride j) (observed src t slotSize startQuery j)
                    (observed src t slotSize startQuery j \<noteq> notReady) =
                  (if flags AND VK_QUERY_RESULT_WITH_AVAILABILITY_BIT \<noteq> 0
                   then [if flags AND VK_QUERY_RESULT_64_BIT \<noteq> 0
                         then Store64 (slotDataOffset stride j + 8) 0
                         else Store32 (slotDataOffset stride j + 4) 0]
                   else []) \<and>
                (unat (querySlotSize flags) \<le> unat stride \<longrightarrow>
                   (\<forall>a. slotDataOffset stride j \<le> a \<and>
                        a < slotDataOffset stride j + unat (queryValueSize flags) \<longrightarrow>
                        apply_stores ws mem a = mem a) \<and>
                   (flags AND VK_QUERY_RESULT_WITH_AVAILABILITY_BIT \<noteq> 0 \<longrightarrow>
                      (\<forall>a. slotDataOffset stride j + unat (queryValueSize flags) \<le> a \<and>
                           a < slotDataOffset stride j + 2 * unat (queryValueSize flags) \<longrightarrow>
                           apply_stores ws mem a = 0))))"
proof -
  let ?n = "unat (clampQueryCount queryCount dataSize stride flags)"
  let ?obs = "observed src t slotSize startQuery"
  let ?f = "\<lambda>j. write_slot flags (slotDataOffset stride j) (?obs j) (?obs j \<noteq> notReady)"
  let ?ws = "concat (map ?f [0..<?n])"
  have per_slot: "?f j = (if flags AND VK_QUERY_RESULT_WITH_AVAILABILITY_BIT \<noteq> 0
                   then [if flags AND VK_QUERY_RESULT_64_BIT \<noteq> 0
                         then Store64 (slotDataOffset stride j + 8) 0
                         else Store32 (slotDataOffset stride j + 4) 0]
                   else [])" if "?obs j = notReady" for j
    using that by (simp add: write_slot_not_ready)
  have value_bytes: "apply_stores ?ws mem a = mem a"
    if j: "j < ?n" and nr: "?obs j = notReady" and ov: "unat (querySlotSize flags) \<le> unat stride"
      and a: "slotDataOffset stride j \<le> a" "a < slotDataOffset stride j + unat (queryValueSize flags)"
    for j a
  proof (rule apply_stores_frame)
    fix s assume "s \<in> set ?ws"
    then obtain k where k: "k < ?n" and s: "s \<in> set (?f k)" by auto
    show "a \<notin> footprint s"
    proof (cases "k = j")
      case True
      with s nr have "s \<in> set (write_slot flags (slotDataOffset stride j) (?obs j) False)" by simp
      from footprint_write_slot_not_ready[OF this] a show ?thesis by auto
    next
      case False
      from a queryValueSize_le_querySlotSize[of flags]
      have "a < slotDataOffset stride j + unat (querySlotSize flags)" by simp
      with other_slot_disjoint[OF ov k j False s a(1)] show ?thesis by simp
    qed
  qed
  have avail_bytes: "apply_stores ?ws mem a = 0"
    if j: "j < ?n" and nr: "?obs j = notReady" and ov: "unat (querySlotSize flags) \<le> unat stride"
      and av: "flags AND VK_QUERY_RESULT_WITH_AVAILABILITY_BIT \<noteq> 0"
      and a: "slotDataOffset stride j + unat (queryValueSize flags) \<le> a"
             "a < slotDataOffset stride j + 2 * unat (queryValueSize flags)"
    for j a
  proof -
    let ?pre = "concat (map ?f [0..<j])" and ?post = "concat (map ?f [Suc j..<?n])"
    have split: "?ws = ?pre @ ?f j @ ?post" using j by (rule concat_map_upt_split)
    have in_rec: "slotDataOffset stride j \<le> a" "a < slotDataOffset stride j + unat (querySlotSize flags)"
      using a av by (simp_all add: unat_querySlotSize)
    have post: "apply_stores ?post m a = m a" for m
    proof (rule apply_stores_frame)
      fix s assume "s \<in> set ?post"
      then obtain k where k: "Suc j \<le> k" "k < ?n" and s: "s \<in> set (?f k)" by auto
      then have "k \<noteq> j" by simp
      from other_slot_disjoint[OF ov k(2) j this s in_rec] show "a \<notin> footprint s" .
    qed
    have here: "apply_stores (?f j) m a = 0" for m
      using a av nr by (auto simp: write_slot_not_ready unat_queryValueSize)
    show ?thesis unfolding split by (simp add: post here)
  qed
  show ?thesis
  proof (rule exI[of _ ?ws], intro conjI allI impI)
    show "TimestampQueryPool_GetResults src notReady slotSize startQuery queryCount dataSize stride flags t =
           Some (if \<forall>j < ?n. ?obs j \<noteq> notReady then VK_SUCCESS else VK_NOT_READY, ?ws, t + ?n)"
      using assms by (rule GetResults_nowait)
  qed (use per_slot value_bytes avail_bytes in \<open>blast+\<close>)
qed

theorem TimestampQueryPool_GetResults_not_ready_witness:
  "TimestampQueryPool_GetResults (\<lambda>t off. if off = 0 then 0xFFFFFFFFFFFFFFFF else 5)
      0xFFFFFFFFFFFFFFFF 8 0 2 16 8 VK_QUERY_RESULT_WITH_AVAILABILITY_BIT 0
     = Some (VK_NOT_READY, [Store32 4 0, Store32 8 5, Store32 12 1], 2) \<and>
   apply_stores [Store32 4 0, Store32 8 5, Store32 12 1] (\<lambda>a. 0xAA) 0 = 0xAA \<and>
   apply_stores [Store32 4 0, Store32 8 5, Store32 12 1] (\<lambda>a. 0xAA) 4 = 0"
proof -
  let ?src = "\<lambda>(t::nat) (off::nat). if off = 0 then 0xFFFFFFFFFFFFFFFF else (5::uint64_t)"
  let ?fl = "VK_QUERY_RESULT_WITH_AVAILABILITY_BIT"
  have fl: "?fl AND VK_QUERY_RESULT_WAIT_BIT = 0" "?fl AND VK_QUERY_RESULT_64_BIT = 0"
    "?fl \<noteq> 0"
    by (simp_all add: VK_QUERY_RESULT_WAIT_BIT_def VK_QUERY_RESULT_64_BIT_def
          VK_QUERY_RESULT_WITH_AVAILABILITY_BIT_def)
  have n: "unat (clampQueryCount 2 16 8 ?fl) = 2"
    by (simp add: clampQueryCount_def querySlotSize_def queryValueSize_def fl)
  have o: "observed ?src 0 8 0 0 = 0xFFFFFFFFFFFFFFFF" "observed ?src 0 8 0 (Suc 0) = 5"
    by (simp_all add: observed_def srcSlotOffset_def)
  have off: "slotDataOffset 8 0 = 0" "slotDataOffset 8 (Suc 0) = 8"
    by (simp_all add: slotDataOffset_def)
  have sz: "unat (querySlotSize ?fl) = 8" "unat (queryValueSize ?fl) = 4"
    by (simp_all add: querySlotSize_def queryValueSize_def fl)
  from TimestampQueryPool_GetResults_not_ready
         [of 2 ?fl ?src "0xFFFFFFFFFFFFFFFF" 8 0 16 8 0 "\<lambda>a. 0xAA"] fl(1)
  obtain ws where
    g: "TimestampQueryPool_GetResults ?src 0xFFFFFFFFFFFFFFFF 8 0 2 16 8 ?fl 0 =
           Some (if \<forall>j < unat (clampQueryCount 2 16 8 ?fl). observed ?src 0 8 0 j \<noteq> 0xFFFFFFFFFFFFFFFF
                 then VK_SUCCESS else VK_NOT_READY,
                 ws, 0 + unat (clampQueryCount 2 16 8 ?fl))"
    and ws: "ws = concat (map (\<lambda>j. write_slot ?fl (slotDataOffset 8 j)
                       (observed ?src 0 8 0 j) (observed ?src 0 8 0 j \<noteq> 0xFFFFFFFFFFFFFFFF))
                    [0..<unat (clampQueryCount 2 16 8 ?fl)])"
    and rest: "\<forall>j. j < unat (clampQueryCount 2 16 8 ?fl) \<longrightarrow>
                observed ?src 0 8 0 j = 0xFFFFFFFFFFFFFFFF \<longrightarrow>
                write_slot ?fl (slotDataOffset 8 j) (observed ?src 0 8 0 j)
                    (observed ?src 0 8 0 j \<noteq> 0xFFFFFFFFFFFFFFFF) =
                  (if ?fl AND VK_QUERY_RESULT_WITH_AVAILABILITY_BIT \<noteq> 0
                   then [if ?fl AND VK_QUERY_RESULT_64_BIT \<noteq> 0
                         then Store64 (slotDataOffset 8 j + 8) 0
                         else Store32 (slotDataOffset 8 j + 4) 0]
                   else []) \<and>
                (unat (querySlotSize ?fl) \<le> unat (8::VkDeviceSize) \<longrightarrow>
                   (\<forall>a. slotDataOffset 8 j \<le> a \<and>
                        a < slotDataOffset 8 j + unat (queryValueSize ?fl) \<longrightarrow>
                        apply_stores ws (\<lambda>a. 0xAA) a = (\<lambda>a. 0xAA) a) \<and>
                   (?fl AND VK_QUERY_RESULT_WITH_AVAILABILITY_BIT \<noteq> 0 \<longrightarrow>
                      (\<forall>a. slotDataOffset 8 j + unat (queryValueSize ?fl) \<le> a \<and>
                           a < slotDataOffset 8 j + 2 * unat (queryValueSize ?fl) \<longrightarrow>
                           apply_stores ws (\<lambda>a. 0xAA) a = 0)))"
    by (elim meta_impE exE conjE) simp_all
  have ex: "\<exists>j<2. observed ?src 0 8 0 j = (0xFFFFFFFFFFFFFFFF::uint64_t)"
    using o by (intro exI[of _ 0]) simp
  have ws': "ws = [Store32 4 0, Store32 8 5, Store32 12 1]"
    unfolding ws n by (simp add: upt_rec o off write_slot_def fl)
  have g': "TimestampQueryPool_GetResults ?src 0xFFFFFFFFFFFFFFFF 8 0 2 16 8 ?fl 0
     = Some (VK_NOT_READY, [Store32 4 0, Store32 8 5, Store32 12 1], 2)"
    using g ex unfolding ws' n by simp
  from rest[rule_format, of 0] have
    "(\<forall>a. slotDataOffset 8 0 \<le> a \<and> a < slotDataOffset 8 0 + unat (queryValueSize ?fl) \<longrightarrow>
          apply_stores ws (\<lambda>a. 0xAA) a = (\<lambda>a. 0xAA) a) \<and>
     (\<forall>a. slotDataOffset 8 0 + unat (queryValueSize ?fl) \<le> a \<and>
          a < slotDataOffset 8 0 + 2 * unat (queryValueSize ?fl) \<longrightarrow>
          apply_stores ws (\<lambda>a. 0xAA) a = 0)"
    using n o sz fl by simp
  then have "apply_stores ws (\<lambda>a. 0xAA) 0 = 0xAA" "apply_stores ws (\<lambda>a. 0xAA) 4 = 0"
    unfolding off sz by simp_all
  with g' show ?thesis unfolding ws' by simp
qed

section \<open>Timestamp read-back with stride 0\<close>

lemma slotDataOffset_zero [simp]: "slotDataOffset 0 j = 0"
  by (simp add: slotDataOffset_def)

lemma clampQueryCount_stride_zero:
  "clampQueryCount queryCount dataSize 0 flags = min queryCount (ucast (dataSize div querySlotSize flags))"
  by (simp add: clampQueryCount_def max_def)

lemma footprint_write_slot_zero:
  "s \<in> set (write_slot flags 0 v r) \<Longrightarrow> footprint s \<subseteq> {..<unat (querySlotSize flags)}"
  using footprint_write_slot[of s flags 0 v r] by auto

lemma write_slot_ready_overwrites:
  assumes "\<And>a. unat (querySlotSize flags) \<le> a \<Longrightarrow> m a = mem a"
  shows "apply_stores (write_slot flags 0 v True) m = apply_stores (write_slot flags 0 v True) mem"
proof (rule ext)
  fix a
  show "apply_stores (write_slot flags 0 v True) m a = apply_stores (write_slot flags 0 v True) mem a"
    using assms[of a]
    by (auto simp: write_slot_def unat_querySlotSize unat_queryValueSize)
qed

text \<open>
  Claim C9, as stated, fails when the last examined slot is not ready: that slot stores
  no value, so the destination keeps the record of an earlier slot.  In the call below
  slot 0 holds 5 and slot 1, the last one, holds the sentinel; the destination ends
  with the value of slot 0, which the stores of slot 1 alone (there are none) would not
  have put there.
\<close>

theorem TimestampQueryPool_GetResults_stride0_counterexample:
  "TimestampQueryPool_GetResults (\<lambda>t off. if off = 0 then 5 else 0xFFFFFFFFFFFFFFFF)
      0xFFFFFFFFFFFFFFFF 8 0 2 8 0 0 0 = Some (VK_NOT_READY, [Store32 0 5], 2) \<and>
   observed (\<lambda>t off. if off = 0 then 5 else 0xFFFFFFFFFFFFFFFF) 0 8 0 1 = 0xFFFFFFFFFFFFFFFF \<and>
   apply_stores [Store32 0 5] (\<lambda>a. 0) 0
     \<noteq> apply_stores (write_slot 0 (slotDataOffset 0 1) 0xFFFFFFFFFFFFFFFF False) (\<lambda>a. 0) 0"
proof -
  have n: "unat (clampQueryCount 2 8 0 0) = 2"
    by (simp add: clampQueryCount_def querySlotSize_def queryValueSize_def)
  have o: "observed (\<lambda>t off. if off = 0 then 5 else 0xFFFFFFFFFFFFFFFF) 0 8 0 0 = 5"
    "observed (\<lambda>t off. if off = 0 then 5 else 0xFFFFFFFFFFFFFFFF) 0 8 0 (Suc 0) = 0xFFFFFFFFFFFFFFFF"
    by (simp_all add: observed_def srcSlotOffset_def)
  have ex: "\<exists>j<2. observed (\<lambda>t off. if off = 0 then 5 else 0xFFFFFFFFFFFFFFFF) 0 8 0 j = (0xFFFFFFFFFFFFFFFF::uint64_t)"
    using o by (intro exI[of _ "Suc 0"]) simp
  have "TimestampQueryPool_GetResults (\<lambda>t off. if off = 0 then 5 else 0xFFFFFFFFFFFFFFFF)
      0xFFFFFFFFFFFFFFFF 8 0 2 8 0 0 0 = Some (VK_NOT_READY, [Store32 0 5], 2)"
    by (subst GetResults_nowait) (use ex in \<open>simp_all add: n o upt_rec write_slot_def\<close>)
  moreover have "apply_stores [Store32 0 5] (\<lambda>a. 0) 0
     \<noteq> apply_stores (write_slot 0 (slotDataOffset 0 1) 0xFFFFFFFFFFFFFFFF False) (\<lambda>a. 0) 0"
    by (simp add: byte_of_def write_slot_def)
  ultimately show ?thesis using o by simp
qed

text \<open>
  Claim C9, amended.  In the timestamp variant a stride of 0 is not replaced by the
  natural per-slot output size: the record of every examined slot is written at the
  same destination address (offset 0), while the clamp uses
  \<open>max(perSlotOutputSize, 0) = perSlotOutputSize\<close> as the footprint of a slot.  All
  stores of the call lie in the first \<open>perSlotOutputSize\<close> bytes, and when the last
  examined slot is ready (as it always is with WAIT) the destination after the call is
  the destination before it with the record of that last slot alone.
\<close>

theorem TimestampQueryPool_GetResults_stride0:
  assumes "TimestampQueryPool_GetResults src notReady slotSize startQuery queryCount dataSize 0 flags t
            = Some (res, ws, t')"
    and "queryCount > 0"
  shows "clampQueryCount queryCount dataSize 0 flags
           = min queryCount (ucast (dataSize div querySlotSize flags)) \<and>
         (\<exists>rd. (\<forall>j. j < unat (clampQueryCount queryCount dataSize 0 flags) \<longrightarrow>
                    t \<le> rd j \<and> rd j < t') \<and>
               ws = concat (map (\<lambda>j. write_slot flags 0
                                  (slot_value src rd slotSize startQuery j)
                                  (slot_value src rd slotSize startQuery j \<noteq> notReady))
                            [0..<unat (clampQueryCount queryCount dataSize 0 flags)]) \<and>
               (\<forall>s \<in> set ws. footprint s \<subseteq> {..<unat (querySlotSize flags)}) \<and>
               (\<forall>n. unat (clampQueryCount queryCount dataSize 0 flags) = Suc n \<longrightarrow>
                    slot_value src rd slotSize startQuery n \<noteq> notReady \<longrightarrow>
                    apply_stores ws mem =
                      apply_stores (write_slot flags 0 (slot_value src rd slotSize startQuery n) True) mem))"
proof (intro conjI)
  show "clampQueryCount queryCount dataSize 0 flags
           = min queryCount (ucast (dataSize div querySlotSize flags))"
    by (rule clampQueryCount_stride_zero)
next
  let ?n = "unat (clampQueryCount queryCount dataSize 0 flags)"
  from GetResults_trace[OF assms] obtain rd where
    rd: "\<forall>j. j < ?n \<longrightarrow> t \<le> rd j \<and> rd j < t'"
    and ws: "ws = concat (map (\<lambda>j. write_slot flags (slotDataOffset 0 j)
                        (slot_value src rd slotSize startQuery j)
                        (slot_value src rd slotSize startQuery j \<noteq> notReady)) [0..<?n])"
    by blast
  let ?f = "\<lambda>j. write_slot flags 0 (slot_value src rd slotSize startQuery j)
                    (slot_value src rd slotSize startQuery j \<noteq> notReady)"
  have ws0: "ws = concat (map ?f [0..<?n])"
    unfolding ws by simp
  have fp: "footprint s \<subseteq> {..<unat (querySlotSize flags)}" if "s \<in> set (concat (map ?f [i..<k]))" for s i k
  proof -
    from that obtain j where "s \<in> set (?f j)" by auto
    then show ?thesis by (rule footprint_write_slot_zero)
  qed
  have last: "apply_stores ws mem =
                apply_stores (write_slot flags 0 (slot_value src rd slotSize startQuery n) True) mem"
    if n: "?n = Suc n" and r: "slot_value src rd slotSize startQuery n \<noteq> notReady" for n
  proof -
    let ?pre = "concat (map ?f [0..<n])"
    have "ws = ?pre @ ?f n" unfolding ws0 n by simp
    then have "apply_stores ws mem = apply_stores (?f n) (apply_stores ?pre mem)" by simp
    also have "?f n = write_slot flags 0 (slot_value src rd slotSize startQuery n) True"
      using r by simp
    also have "apply_stores (write_slot flags 0 (slot_value src rd slotSize startQuery n) True)
                 (apply_stores ?pre mem)
             = apply_stores (write_slot flags 0 (slot_value src rd slotSize startQuery n) True) mem"
    proof (rule write_slot_ready_overwrites)
      fix a assume a: "unat (querySlotSize flags) \<le> a"
      show "apply_stores ?pre mem a = mem a"
      proof (rule apply_stores_frame)
        fix s assume "s \<in> set ?pre"
        from fp[OF this] a show "a \<notin> footprint s" by auto
      qed
    qed
    finally show ?thesis .
  qed
  show "\<exists>rd. (\<forall>j. j < ?n \<longrightarrow> t \<le> rd j \<and> rd j < t') \<and>
               ws = concat (map (\<lambda>j. write_slot flags 0
                                  (slot_value src rd slotSize startQuery j)
                                  (slot_value src rd slotSize startQuery j \<noteq> notReady))
                            [0..<?n]) \<and>
               (\<forall>s \<in> set ws. footprint s \<subseteq> {..<unat (querySlotSize flags)}) \<and>
               (\<forall>n. ?n = Suc n \<longrightarrow>
                    slot_value src rd slotSize startQuery n \<noteq> notReady \<longrightarrow>
                    apply_stores ws mem =
                      apply_stores (write_slot flags 0 (slot_value src rd slotSize startQuery n) True) mem)"
  proof (rule exI[of _ rd], intro conjI ballI)
    show "\<forall>j. j < ?n \<longrightarrow> t \<le> rd j \<and> rd j < t'" by (rule rd)
  next
    show "ws = concat (map ?f [0..<?n])" by (rule ws0)
  next
    fix s assume "s \<in> set ws"
    then show "footprint s \<subseteq> {..<unat (querySlotSize flags)}" unfolding ws0 by (rule fp)
  next
    show "\<forall>n. ?n = Suc n \<longrightarrow> slot_value src rd slotSize startQuery n \<noteq> notReady \<longrightarrow>
            apply_stores ws mem =
              apply_stores (write_slot flags 0 (slot_value src rd slotSize startQuery n) True) mem"
      using last by blast
  qed
qed

theorem TimestampQueryPool_GetResults_stride0_witness:
  "TimestampQueryPool_GetResults (\<lambda>t off. if off = 0 then 5 else 9)
      0xFFFFFFFFFFFFFFFF 8 0 2 8 0 0 0 = Some (VK_SUCCESS, [Store32 0 5, Store32 0 9], 2) \<and>
   clampQueryCount 2 8 0 0 = 2 \<and>
   apply_stores [Store32 0 5, Store32 0 9] (\<lambda>a. 0xAA) = apply_stores [Store32 0 9] (\<lambda>a. 0xAA)"
proof -
  let ?src = "\<lambda>(t::nat) (off::nat). if off = 0 then 5 else (9::uint64_t)"
  have c: "clampQueryCount 2 8 0 0 = 2"
    by (simp add: clampQueryCount_def querySlotSize_def queryValueSize_def)
  have o: "observed ?src 0 8 0 0 = 5" "observed ?src 0 8 0 (Suc 0) = 9"
    by (simp_all add: observed_def srcSlotOffset_def)
  have al: "\<forall>j<2. observed ?src 0 8 0 j \<noteq> (0xFFFFFFFFFFFFFFFF::uint64_t)"
  proof (intro allI impI)
    fix j :: nat assume "j < 2"
    then have "j = 0 \<or> j = Suc 0" by auto
    with o show "observed ?src 0 8 0 j \<noteq> (0xFFFFFFFFFFFFFFFF::uint64_t)" by auto
  qed
  have g: "TimestampQueryPool_GetResults ?src 0xFFFFFFFFFFFFFFFF 8 0 2 8 0 0 0
             = Some (VK_SUCCESS, [Store32 0 5, Store32 0 9], 2)"
    by (subst GetResults_nowait) (use al in \<open>simp_all add: c o upt_rec write_slot_def\<close>)
  have sv: "slot_value ?src rd 8 0 (Suc 0) = 9" for rd
    by (simp add: slot_value_def srcSlotOffset_def)
  from TimestampQueryPool_GetResults_stride0[OF g, of "\<lambda>a. 0xAA"]
  obtain rd where
    "\<forall>n. unat (clampQueryCount 2 8 0 0) = Suc n \<longrightarrow>
         slot_value ?src rd 8 0 n \<noteq> 0xFFFFFFFFFFFFFFFF \<longrightarrow>
         apply_stores [Store32 0 5, Store32 0 9] (\<lambda>a. 0xAA) =
           apply_stores (write_slot 0 0 (slot_value ?src rd 8 0 n) True) (\<lambda>a. 0xAA)"
    by auto
  from this[rule_format, of "Suc 0"]
  have "apply_stores [Store32 0 5, Store32 0 9] (\<lambda>a. 0xAA) = apply_stores [Store32 0 9] (\<lambda>a. 0xAA)"
    by (simp add: c sv write_slot_def)
  with g c show ?thesis by simp
qed

section \<open>Properties of the timestamp reset\<close>

lemma ucast_byte_of: "(ucast (byte_of (v::uint64_t) k) :: uint64_t) = take_bit 8 (drop_bit (8 * k) v)"
  by (simp add: byte_of_def unsigned_ucast_eq)

lemma read64_bytes:
  assumes "\<And>k. k < 8 \<Longrightarrow> mem (off + k) = byte_of v k"
  shows "read64 mem off = v"
proof -
  have "read64 mem off =
      fold (\<lambda>k w. w OR push_bit (8 * k) (take_bit 8 (drop_bit (8 * k) v))) [0..<8] (0::uint64_t)"
    unfolding read64_def
    by (rule fold_cong) (simp_all add: assms ucast_byte_of)
  also have "\<dots> =
      take_bit 8 v OR push_bit 8 (take_bit 8 (drop_bit 8 v)) OR push_bit 16 (take_bit 8 (drop_bit 16 v)) OR
      push_bit 24 (take_bit 8 (drop_bit 24 v)) OR push_bit 32 (take_bit 8 (drop_bit 32 v)) OR
      push_bit 40 (take_bit 8 (drop_bit 40 v)) OR push_bit 48 (take_bit 8 (drop_bit 48 v)) OR
      push_bit 56 (take_bit 8 (drop_bit 56 v))"
    by (simp add: upt_rec ac_simps)
  also have "\<dots> = v"
  proof (rule bit_eqI)
    fix n assume "possible_bit TYPE(uint64_t) n"
    then have n: "n < 64" by simp
    show "bit (take_bit 8 v OR push_bit 8 (take_bit 8 (drop_bit 8 v)) OR push_bit 16 (take_bit 8 (drop_bit 16 v)) OR
      push_bit 24 (take_bit 8 (drop_bit 24 v)) OR push_bit 32 (take_bit 8 (drop_bit 32 v)) OR
      push_bit 40 (take_bit 8 (drop_bit 40 v)) OR push_bit 48 (take_bit 8 (drop_bit 48 v)) OR
      push_bit 56 (take_bit 8 (drop_bit 56 v))) n = bit v n"
      using n
      apply (simp add: bit_or_iff bit_push_bit_iff bit_take_bit_iff bit_drop_bit_eq)
      apply (cases "n < 8"; cases "n < 16"; cases "n < 24"; cases "n < 32"; cases "n < 40";
             cases "n < 48"; cases "n < 56"; auto)
      done
  qed
  finally show ?thesis .
qed

lemma byte_index_in_word:
  fixes a base idx :: nat
  assumes "base + 8 * idx \<le> a" and "a < base + 8 * idx + 8"
  shows "(a - base) mod 8 = a - (base + 8 * idx)"
proof -
  define r where "r = a - (base + 8 * idx)"
  have "a - base = r + idx * 8" and "r < 8" using assms by (simp_all add: r_def)
  then have "(a - base) mod 8 = r" by simp
  then show ?thesis by (simp add: r_def)
qed

lemma reset_fill_eq:
  "idx \<le> unat n \<Longrightarrow>
   reset_fill notReady base n idx mem =
     (\<lambda>a. if base + 8 * idx \<le> a \<and> a < base + 8 * unat n
          then byte_of notReady ((a - base) mod 8) else mem a)"
proof (induction notReady base n idx mem rule: reset_fill.induct)
  case (1 notReady base n idx mem)
  show ?case
  proof (cases "idx < unat n")
    case False
    with "1.prems" have "idx = unat n" by simp
    then show ?thesis by (subst reset_fill.simps) (auto simp: fun_eq_iff)
  next
    case True
    have step: "reset_fill notReady base n idx mem =
          reset_fill notReady base n (Suc idx) (apply_store (Store64 (base + 8 * idx) notReady) mem)"
      by (subst reset_fill.simps) (simp add: True)
    have ih: "reset_fill notReady base n (Suc idx) (apply_store (Store64 (base + 8 * idx) notReady) mem) =
       (\<lambda>a. if base + 8 * Suc idx \<le> a \<and> a < base + 8 * unat n
          then byte_of notReady ((a - base) mod 8)
          else apply_store (Store64 (base + 8 * idx) notReady) mem a)"
      using True by (intro "1.IH") simp_all
    show ?thesis
      unfolding step ih
    proof (rule ext)
      fix a
      have le: "base + 8 * idx + 8 \<le> base + 8 * unat n" using True by simp
      show "(if base + 8 * Suc idx \<le> a \<and> a < base + 8 * unat n
          then byte_of notReady ((a - base) mod 8)
          else apply_store (Store64 (base + 8 * idx) notReady) mem a) =
         (if base + 8 * idx \<le> a \<and> a < base + 8 * unat n
          then byte_of notReady ((a - base) mod 8) else mem a)"
        using le byte_index_in_word[of base idx a] by auto
    qed
  qed
qed

lemma reset_fill_all:
  "reset_fill notReady base n 0 mem =
     (\<lambda>a. if base \<le> a \<and> a < base + 8 * unat n
          then byte_of notReady ((a - base) mod 8) else mem a)"
  using reset_fill_eq[OF le0, where n = n and notReady = notReady and base = base and mem = mem] by simp

lemma reset_fill_twice:
  "reset_fill notReady base n 0 (reset_fill notReady base n 0 mem) = reset_fill notReady base n 0 mem"
  by (rule ext) (simp add: reset_fill_all)

lemma reset_devices_eq:
  "reset_devices notReady numPalDevices mapResult base n deviceIdx mem =
     (if \<exists>d. deviceIdx \<le> d \<and> d < numPalDevices \<and> mapResult d = PalSuccess
      then reset_fill notReady base n 0 mem else mem)"
proof (induction notReady numPalDevices mapResult base n deviceIdx mem rule: reset_devices.induct)
  case (1 notReady numPalDevices mapResult base n deviceIdx mem)
  show ?case
  proof (cases "deviceIdx < numPalDevices")
    case False
    then show ?thesis by (subst reset_devices.simps) auto
  next
    case True
    have later: "(\<exists>d. deviceIdx \<le> d \<and> d < numPalDevices \<and> mapResult d = PalSuccess) =
                 (mapResult deviceIdx = PalSuccess \<or>
                  (\<exists>d. Suc deviceIdx \<le> d \<and> d < numPalDevices \<and> mapResult d = PalSuccess))"
    proof
      assume "\<exists>d. deviceIdx \<le> d \<and> d < numPalDevices \<and> mapResult d = PalSuccess"
      then obtain d where d: "deviceIdx \<le> d" "d < numPalDevices" "mapResult d = PalSuccess" by blast
      show "mapResult deviceIdx = PalSuccess \<or>
            (\<exists>d. Suc deviceIdx \<le> d \<and> d < numPalDevices \<and> mapResult d = PalSuccess)"
      proof (cases "d = deviceIdx")
        case True
        with d(3) show ?thesis by simp
      next
        case False
        with d(1) have "Suc deviceIdx \<le> d" by simp
        with d(2,3) show ?thesis by blast
      qed
    next
      assume "mapResult deviceIdx = PalSuccess \<or>
            (\<exists>d. Suc deviceIdx \<le> d \<and> d < numPalDevices \<and> mapResult d = PalSuccess)"
      then show "\<exists>d. deviceIdx \<le> d \<and> d < numPalDevices \<and> mapResult d = PalSuccess"
      proof
        assume "mapResult deviceIdx = PalSuccess"
        with True show ?thesis by blast
      next
        assume "\<exists>d. Suc deviceIdx \<le> d \<and> d < numPalDevices \<and> mapResult d = PalSuccess"
        then obtain d where "Suc deviceIdx \<le> d" "d < numPalDevices" "mapResult d = PalSuccess" by blast
        then have "deviceIdx \<le> d \<and> d < numPalDevices \<and> mapResult d = PalSuccess" by simp
        then show ?thesis by blast
      qed
    qed
    show ?thesis
      apply (subst reset_devices.simps)
      apply (simp only: True if_True)
      apply (subst "1.IH"[OF True])
      apply (simp only: later)
      apply (cases "mapResult deviceIdx = PalSuccess";
             cases "\<exists>d. Suc deviceIdx \<le> d \<and> d < numPalDevices \<and> mapResult d = PalSuccess")
         apply (simp_all only: reset_fill_twice if_True if_False simp_thms)
      done
  qed
qed

lemma Reset_arith:
  fixes slotSize entryCount startQuery queryCount :: uint32_t
  assumes fit: "unat slotSize * unat entryCount < 2 ^ 32"
    and lt: "startQuery < entryCount"
  shows "unat (slotSize * startQuery) = unat slotSize * unat startQuery"
    and "unat (ucast ((ucast (slotSize * min queryCount (entryCount - startQuery)) :: size_t) div 8) :: uint32_t)
           = (unat slotSize * min (unat queryCount) (unat entryCount - unat startQuery)) div 8"
proof -
  have lt': "unat startQuery < unat entryCount" using lt by (simp add: word_less_nat_alt)
  have "unat slotSize * unat startQuery \<le> unat slotSize * unat entryCount"
    using lt' by (intro mult_le_mono2) simp
  from this fit have "unat slotSize * unat startQuery < 2 ^ 32" by (rule le_less_trans)
  then show "unat (slotSize * startQuery) = unat slotSize * unat startQuery"
    by (simp add: unat_word_ariths)
  have sub: "unat (entryCount - startQuery) = unat entryCount - unat startQuery"
    using lt by (intro unat_sub) simp
  let ?cnt = "min (unat queryCount) (unat entryCount - unat startQuery)"
  have cnt: "unat (min queryCount (entryCount - startQuery)) = ?cnt"
    by (simp add: unat_min_word sub)
  have "unat slotSize * ?cnt \<le> unat slotSize * unat entryCount"
    by (intro mult_le_mono2) simp
  from this fit have small: "unat slotSize * ?cnt < 2 ^ 32" by (rule le_less_trans)
  then have prod: "unat (slotSize * min queryCount (entryCount - startQuery)) = unat slotSize * ?cnt"
    by (simp add: unat_word_ariths cnt)
  have up: "unat (ucast (slotSize * min queryCount (entryCount - startQuery)) :: size_t) = unat slotSize * ?cnt"
    using small by (simp add: unsigned_ucast_eq take_bit_eq_mod prod)
  have dv8: "unat ((ucast (slotSize * min queryCount (entryCount - startQuery)) :: size_t) div 8)
               = (unat slotSize * ?cnt) div 8"
    by (simp add: unat_div up)
  have "(unat slotSize * ?cnt) div 8 \<le> unat slotSize * ?cnt" by (rule div_le_dividend)
  from this small have "(unat slotSize * ?cnt) div 8 < 2 ^ 32" by (rule le_less_trans)
  then show "unat (ucast ((ucast (slotSize * min queryCount (entryCount - startQuery)) :: size_t) div 8) :: uint32_t)
               = (unat slotSize * ?cnt) div 8"
    by (simp add: unsigned_ucast_eq take_bit_eq_mod dv8)
qed

lemma Reset_eq:
  assumes lt: "startQuery < m_entryCount pool"
    and fit: "unat (m_slotSize pool) * unat (m_entryCount pool) < 2 ^ 32"
    and d: "d < numPalDevices" "mapResult d = PalSuccess"
  shows "TimestampQueryPool_Reset notReady pool numPalDevices mapResult startQuery queryCount mem a =
         (if unat (m_slotSize pool) * unat startQuery \<le> a \<and>
             a < unat (m_slotSize pool) * unat startQuery +
                 8 * ((unat (m_slotSize pool) *
                       min (unat queryCount) (unat (m_entryCount pool) - unat startQuery)) div 8)
          then byte_of notReady ((a - unat (m_slotSize pool) * unat startQuery) mod 8)
          else mem a)"
proof -
  note ar = Reset_arith(1)[OF fit lt] Reset_arith(2)[OF fit lt, where queryCount = queryCount]
  have some: "\<exists>d. 0 \<le> d \<and> d < numPalDevices \<and> mapResult d = PalSuccess"
    using d by blast
  show ?thesis
    unfolding TimestampQueryPool_Reset_def Let_def
    by (simp only: lt if_True reset_devices_eq some reset_fill_all ar)
qed

lemma Reset_whole_slots:
  fixes ss cnt :: nat
  assumes "8 dvd ss"
  shows "ss * sq + 8 * ((ss * cnt) div 8) = ss * (sq + cnt)"
proof -
  have "8 dvd ss * cnt" using assms by simp
  then have "8 * ((ss * cnt) div 8) = ss * cnt" by simp
  then show ?thesis by (simp add: distrib_left)
qed

text \<open>
  Claim C5, as stated, fails where the 32-bit offsets wrap.  The pool below has
  \<open>2^29 + 1\<close> slots of 8 bytes.  Resetting its last slot (\<open>startQuery = 2^29\<close>, one query)
  computes the offset \<open>8 * 2^29\<close> in \<open>uint32_t\<close>, which is 0: the first byte of slot 0, a
  slot outside the range, is overwritten, and the byte at offset \<open>8 * 2^29\<close> is not.
\<close>

theorem TimestampQueryPool_Reset_counterexample:
  "(0x20000000 :: uint32_t) < m_entryCount \<lparr>m_entryCount = 0x20000001, m_slotSize = 8\<rparr> \<and>
   TimestampQueryPool_Reset 0xFFFFFFFFFFFFFFFF \<lparr>m_entryCount = 0x20000001, m_slotSize = 8\<rparr>
      1 (\<lambda>d. PalSuccess) 0x20000000 1 (\<lambda>a. 0) 0 = 0xFF \<and>
   TimestampQueryPool_Reset 0xFFFFFFFFFFFFFFFF \<lparr>m_entryCount = 0x20000001, m_slotSize = 8\<rparr>
      1 (\<lambda>d. PalSuccess) 0x20000000 1 (\<lambda>a. 0) (8 * 0x20000000) = 0"
  by (simp add: TimestampQueryPool_Reset_def Let_def reset_devices_eq reset_fill_all byte_of_def)

text \<open>
  Claim C5, amended.  Let the pool's memory be addressable by 32-bit offsets
  (\<open>slotSize * entryCount < 2^32\<close>).  When \<open>startQuery < entryCount\<close> and the memory maps
  successfully on some replica, \<open>Reset(startQuery, queryCount)\<close> overwrites in that memory
  exactly the 64-bit words of the slots
  \<open>[startQuery, startQuery + min(queryCount, entryCount - startQuery))\<close> with the sentinel:
  the \<open>slotSize * n div 8\<close> consecutive words that start at the first byte of slot
  \<open>startQuery\<close>, \<open>n\<close> being the number of slots; each of these words reads as the sentinel,
  and every byte outside them is unchanged.  For a slot size that is a whole number of
  64-bit words these are all the bytes of the slots, and every 64-bit word of every slot
  of the range reads as the sentinel.  When \<open>startQuery\<close> is at or beyond \<open>entryCount\<close> the
  call is a no-op that modifies no memory (for every pool).
\<close>

theorem TimestampQueryPool_Reset_range:
  "(\<not> startQuery < m_entryCount pool \<longrightarrow>
      TimestampQueryPool_Reset notReady pool numPalDevices mapResult startQuery queryCount mem = mem) \<and>
   (startQuery < m_entryCount pool \<longrightarrow>
    unat (m_slotSize pool) * unat (m_entryCount pool) < 2 ^ 32 \<longrightarrow>
      (\<forall>d. d < numPalDevices \<longrightarrow> mapResult d = PalSuccess \<longrightarrow>
         (\<forall>a. TimestampQueryPool_Reset notReady pool numPalDevices mapResult startQuery queryCount mem a =
            (if unat (m_slotSize pool) * unat startQuery \<le> a \<and>
                a < unat (m_slotSize pool) * unat startQuery +
                    8 * ((unat (m_slotSize pool) *
                          min (unat queryCount) (unat (m_entryCount pool) - unat startQuery)) div 8)
             then byte_of notReady ((a - unat (m_slotSize pool) * unat startQuery) mod 8)
             else mem a)) \<and>
         (\<forall>w. w < (unat (m_slotSize pool) *
                     min (unat queryCount) (unat (m_entryCount pool) - unat startQuery)) div 8 \<longrightarrow>
            read64 (TimestampQueryPool_Reset notReady pool numPalDevices mapResult startQuery queryCount mem)
              (unat (m_slotSize pool) * unat startQuery + 8 * w) = notReady) \<and>
         (8 dvd unat (m_slotSize pool) \<longrightarrow>
            (\<forall>a. TimestampQueryPool_Reset notReady pool numPalDevices mapResult startQuery queryCount mem a =
               (if unat (m_slotSize pool) * unat startQuery \<le> a \<and>
                   a < unat (m_slotSize pool) *
                         (unat startQuery + min (unat queryCount) (unat (m_entryCount pool) - unat startQuery))
                then byte_of notReady ((a - unat (m_slotSize pool) * unat startQuery) mod 8)
                else mem a)) \<and>
            (\<forall>s w. unat startQuery \<le> s \<longrightarrow>
               s < unat startQuery + min (unat queryCount) (unat (m_entryCount pool) - unat startQuery) \<longrightarrow>
               8 * w < unat (m_slotSize pool) \<longrightarrow>
               read64 (TimestampQueryPool_Reset notReady pool numPalDevices mapResult startQuery queryCount mem)
                 (unat (m_slotSize pool) * s + 8 * w) = notReady))))"
proof (intro conjI impI allI)
  assume "\<not> startQuery < m_entryCount pool"
  then show "TimestampQueryPool_Reset notReady pool numPalDevices mapResult startQuery queryCount mem = mem"
    by (simp add: TimestampQueryPool_Reset_def)
next
  fix d a
  assume "startQuery < m_entryCount pool"
    "unat (m_slotSize pool) * unat (m_entryCount pool) < 2 ^ 32"
    "d < numPalDevices" "mapResult d = PalSuccess"
  then show "TimestampQueryPool_Reset notReady pool numPalDevices mapResult startQuery queryCount mem a =
            (if unat (m_slotSize pool) * unat startQuery \<le> a \<and>
                a < unat (m_slotSize pool) * unat startQuery +
                    8 * ((unat (m_slotSize pool) *
                          min (unat queryCount) (unat (m_entryCount pool) - unat startQuery)) div 8)
             then byte_of notReady ((a - unat (m_slotSize pool) * unat startQuery) mod 8)
             else mem a)"
    by (rule Reset_eq[where mapResult = mapResult and d = d])
next
  fix d w
  let ?ss = "unat (m_slotSize pool)" and ?sq = "unat startQuery"
  let ?cnt = "min (unat queryCount) (unat (m_entryCount pool) - unat startQuery)"
  assume lt: "startQuery < m_entryCount pool"
    and fit: "?ss * unat (m_entryCount pool) < 2 ^ 32"
    and d: "d < numPalDevices" "mapResult d = PalSuccess"
    and w: "w < (?ss * ?cnt) div 8"
  show "read64 (TimestampQueryPool_Reset notReady pool numPalDevices mapResult startQuery queryCount mem)
          (?ss * ?sq + 8 * w) = notReady"
  proof (rule read64_bytes)
    fix k :: nat assume k: "k < 8"
    from w have "Suc w \<le> (?ss * ?cnt) div 8" by simp
    then have "8 * Suc w \<le> 8 * ((?ss * ?cnt) div 8)" by (intro mult_le_mono2)
    with k have hi: "?ss * ?sq + 8 * w + k < ?ss * ?sq + 8 * ((?ss * ?cnt) div 8)" by simp
    have lo: "?ss * ?sq \<le> ?ss * ?sq + 8 * w + k" by simp
    have "(?ss * ?sq + 8 * w + k - ?ss * ?sq) = k + w * 8" by simp
    then have "(?ss * ?sq + 8 * w + k - ?ss * ?sq) mod 8 = (k + w * 8) mod 8" by simp
    also have "\<dots> = k" using k by (simp only: mod_mult_self1 mod_less)
    finally have modk: "(?ss * ?sq + 8 * w + k - ?ss * ?sq) mod 8 = k" .
    have cond: "?ss * ?sq \<le> ?ss * ?sq + 8 * w + k \<and>
                ?ss * ?sq + 8 * w + k < ?ss * ?sq + 8 * ((?ss * ?cnt) div 8)"
      using lo hi by blast
    show "TimestampQueryPool_Reset notReady pool numPalDevices mapResult startQuery queryCount mem
            (?ss * ?sq + 8 * w + k) = byte_of notReady k"
      by (simp only: Reset_eq[where mapResult = mapResult and d = d, OF lt fit d] cond if_True modk simp_thms)
  qed
next
  fix d a
  assume lt: "startQuery < m_entryCount pool"
    and fit: "unat (m_slotSize pool) * unat (m_entryCount pool) < 2 ^ 32"
    and d: "d < numPalDevices" "mapResult d = PalSuccess"
    and dv: "8 dvd unat (m_slotSize pool)"
  show "TimestampQueryPool_Reset notReady pool numPalDevices mapResult startQuery queryCount mem a =
               (if unat (m_slotSize pool) * unat startQuery \<le> a \<and>
                   a < unat (m_slotSize pool) *
                         (unat startQuery + min (unat queryCount) (unat (m_entryCount pool) - unat startQuery))
                then byte_of notReady ((a - unat (m_slotSize pool) * unat startQuery) mod 8)
                else mem a)"
    by (simp only: Reset_eq[where mapResult = mapResult and d = d, OF lt fit d] Reset_whole_slots[OF dv])
next
  fix d s w
  let ?ss = "unat (m_slotSize pool)" and ?sq = "unat startQuery"
  let ?cnt = "min (unat queryCount) (unat (m_entryCount pool) - unat startQuery)"
  assume lt: "startQuery < m_entryCount pool"
    and fit: "?ss * unat (m_entryCount pool) < 2 ^ 32"
    and d: "d < numPalDevices" "mapResult d = PalSuccess"
    and dv: "8 dvd ?ss"
    and s: "?sq \<le> s" "s < ?sq + ?cnt" and w: "8 * w < ?ss"
  show "read64 (TimestampQueryPool_Reset notReady pool numPalDevices mapResult startQuery queryCount mem)
             (?ss * s + 8 * w) = notReady"
  proof (rule read64_bytes)
    fix k :: nat assume k: "k < 8"
    from dv obtain m where m: "?ss = 8 * m" by (auto simp: dvd_def)
    with w have "w < m" by simp
    then have "Suc w \<le> m" by simp
    then have "8 * Suc w \<le> 8 * m" by (intro mult_le_mono2)
    with k m have in_slot: "8 * w + k < ?ss" by simp
    have lo: "?ss * ?sq \<le> ?ss * s" using s(1) by (intro mult_le_mono2)
    have "Suc s \<le> ?sq + ?cnt" using s(2) by simp
    then have "?ss * Suc s \<le> ?ss * (?sq + ?cnt)" by (intro mult_le_mono2)
    with in_slot have hi: "?ss * s + 8 * w + k < ?ss * (?sq + ?cnt)" by simp
    obtain e where e: "s = ?sq + e" using s(1) by (auto simp: le_iff_add)
    have "(?ss * s + 8 * w + k - ?ss * ?sq) = k + (m * e + w) * 8"
      by (simp add: e m distrib_left distrib_right)
    then have "(?ss * s + 8 * w + k - ?ss * ?sq) mod 8 = (k + (m * e + w) * 8) mod 8" by simp
    also have "\<dots> = k" using k by (simp only: mod_mult_self1 mod_less)
    finally have "(?ss * s + 8 * w + k - ?ss * ?sq) mod 8 = k" .
    note modk = this
    have lo': "?ss * ?sq \<le> ?ss * s + 8 * w + k"
      using lo by (intro trans_le_add1)
    have cond: "?ss * ?sq \<le> ?ss * s + 8 * w + k \<and> ?ss * s + 8 * w + k < ?ss * (?sq + ?cnt)"
      using lo' hi by blast
    show "TimestampQueryPool_Reset notReady pool numPalDevices mapResult startQuery queryCount mem
            (?ss * s + 8 * w + k) = byte_of notReady k"
      by (simp only: Reset_eq[where mapResult = mapResult and d = d, OF lt fit d] Reset_whole_slots[OF dv] cond if_True modk simp_thms)
  qed
qed

theorem TimestampQueryPool_Reset_range_witness:
  "TimestampQueryPool_Reset 0xFFFFFFFFFFFFFFFF \<lparr>m_entryCount = 4, m_slotSize = 8\<rparr>
      2 (\<lambda>d. if d = 1 then PalSuccess else PalErrorUnknown) 4 1 (\<lambda>a. 0) = (\<lambda>a. 0) \<and>
   TimestampQueryPool_Reset 0xFFFFFFFFFFFFFFFF \<lparr>m_entryCount = 4, m_slotSize = 8\<rparr>
      2 (\<lambda>d. if d = 1 then PalSuccess else PalErrorUnknown) 1 5 (\<lambda>a. 0) 7 = 0 \<and>
   TimestampQueryPool_Reset 0xFFFFFFFFFFFFFFFF \<lparr>m_entryCount = 4, m_slotSize = 8\<rparr>
      2 (\<lambda>d. if d = 1 then PalSuccess else PalErrorUnknown) 1 5 (\<lambda>a. 0) 8 = 0xFF \<and>
   TimestampQueryPool_Reset 0xFFFFFFFFFFFFFFFF \<lparr>m_entryCount = 4, m_slotSize = 8\<rparr>
      2 (\<lambda>d. if d = 1 then PalSuccess else PalErrorUnknown) 1 5 (\<lambda>a. 0) 31 = 0xFF \<and>
   TimestampQueryPool_Reset 0xFFFFFFFFFFFFFFFF \<lparr>m_entryCount = 4, m_slotSize = 8\<rparr>
      2 (\<lambda>d. if d = 1 then PalSuccess else PalErrorUnknown) 1 5 (\<lambda>a. 0) 32 = 0 \<and>
   read64 (TimestampQueryPool_Reset 0xFFFFFFFFFFFFFFFF \<lparr>m_entryCount = 4, m_slotSize = 8\<rparr>
      2 (\<lambda>d. if d = 1 then PalSuccess else PalErrorUnknown) 1 5 (\<lambda>a. 0)) 24 = 0xFFFFFFFFFFFFFFFF"
proof -
  let ?pool = "\<lparr>m_entryCount = 4, m_slotSize = 8\<rparr>"
  let ?map = "\<lambda>d::nat. if d = 1 then PalSuccess else PalErrorUnknown"
  note noop = TimestampQueryPool_Reset_range
      [of 4 ?pool "0xFFFFFFFFFFFFFFFF" 2 ?map 1 "\<lambda>a. 0", THEN conjunct1]
  note range = TimestampQueryPool_Reset_range
      [of 1 ?pool "0xFFFFFFFFFFFFFFFF" 2 ?map 5 "\<lambda>a. 0", THEN conjunct2]
  have pre: "(1::uint32_t) < m_entryCount ?pool"
    "unat (m_slotSize ?pool) * unat (m_entryCount ?pool) < 2 ^ 32"
    by simp_all
  have dev: "(1::nat) < 2" "?map 1 = PalSuccess" by simp_all
  note on_dev = range[rule_format, OF pre, rule_format, OF dev]
  note bytes = on_dev[THEN conjunct1, rule_format]
  note words = on_dev[THEN conjunct2, THEN conjunct1, rule_format]
  have a: "TimestampQueryPool_Reset 0xFFFFFFFFFFFFFFFF ?pool 2 ?map 4 1 (\<lambda>a. 0) = (\<lambda>a. 0)"
    using noop by simp
  have b: "TimestampQueryPool_Reset 0xFFFFFFFFFFFFFFFF ?pool 2 ?map 1 5 (\<lambda>a. 0) 7 = 0"
    by (subst bytes) simp
  have c: "TimestampQueryPool_Reset 0xFFFFFFFFFFFFFFFF ?pool 2 ?map 1 5 (\<lambda>a. 0) 8 = 0xFF"
    by (subst bytes) (simp add: byte_of_def)
  have c': "TimestampQueryPool_Reset 0xFFFFFFFFFFFFFFFF ?pool 2 ?map 1 5 (\<lambda>a. 0) 31 = 0xFF"
    by (subst bytes) (simp add: byte_of_def)
  have d: "TimestampQueryPool_Reset 0xFFFFFFFFFFFFFFFF ?pool 2 ?map 1 5 (\<lambda>a. 0) 32 = 0"
    by (subst bytes) simp
  have e: "read64 (TimestampQueryPool_Reset 0xFFFFFFFFFFFFFFFF ?pool 2 ?map 1 5 (\<lambda>a. 0)) 24
             = 0xFFFFFFFFFFFFFFFF"
    using words[of 2] by simp
  from a b c c' d e show ?thesis by blast
qed

section \<open>Properties of pool creation\<close>

text \<open>
  The invariant of the creation loop: the entries of \<open>pPalQueryPools\<close> that are not null
  are exactly the live backend objects, all below the loop counter; nothing else of
  the world changes.
\<close>

lemma destroy_loop_fields:
  "palObjects (destroy_loop numPalDevices pools deviceIdx w) =
     palObjects w - {d. deviceIdx \<le> d \<and> d < numPalDevices \<and> pools d} \<and>
   calls (destroy_loop numPalDevices pools deviceIdx w) =
     calls w @ map CallDestroyQueryPool (filter pools [deviceIdx..<numPalDevices]) \<and>
   hostBlock (destroy_loop numPalDevices pools deviceIdx w) = hostBlock w \<and>
   gpuMem (destroy_loop numPalDevices pools deviceIdx w) = gpuMem w"
proof (induction numPalDevices pools deviceIdx w rule: destroy_loop.induct)
  case (1 numPalDevices pools deviceIdx w)
  show ?case
  proof (cases "deviceIdx < numPalDevices")
    case False
    then show ?thesis by (subst (1 2 3 4) destroy_loop.simps) auto
  next
    case True
    have s: "{d. deviceIdx \<le> d \<and> d < numPalDevices \<and> pools d} =
             (if pools deviceIdx then {deviceIdx} else {}) \<union>
             {d. Suc deviceIdx \<le> d \<and> d < numPalDevices \<and> pools d}"
      using True by (auto simp: Suc_le_eq le_less)
    have step: "destroy_loop numPalDevices pools deviceIdx w =
                destroy_loop numPalDevices pools (Suc deviceIdx)
                  (if pools deviceIdx then do_DestroyQueryPool deviceIdx w else w)"
      by (subst destroy_loop.simps) (simp add: True)
    show ?thesis
      unfolding step using "1.IH"[OF True]
      by (auto simp: do_DestroyQueryPool_def upt_conv_Cons[OF True] s)
  qed
qed

lemma create_loop_inv:
  assumes "st_pPalQueryPools s = (\<lambda>d. d \<in> palObjects (st_world s))"
    and "\<forall>d \<in> palObjects (st_world s). d < deviceIdx"
  shows "st_pPalQueryPools (create_loop PalToVkResult env deviceIdx s) =
           (\<lambda>d. d \<in> palObjects (st_world (create_loop PalToVkResult env deviceIdx s))) \<and>
         (\<forall>d \<in> palObjects (st_world (create_loop PalToVkResult env deviceIdx s)).
             d < max deviceIdx (NumPalDevices env)) \<and>
         hostBlock (st_world (create_loop PalToVkResult env deviceIdx s)) = hostBlock (st_world s) \<and>
         gpuMem (st_world (create_loop PalToVkResult env deviceIdx s)) = gpuMem (st_world s)"
  using assms
proof (induction PalToVkResult env deviceIdx s rule: create_loop.induct)
  case (1 PalToVkResult env deviceIdx s)
  show ?case
  proof (cases "deviceIdx < NumPalDevices env \<and> st_palResult s = PalSuccess")
    case False
    then show ?thesis using "1.prems" by (subst (1 2 3 4 5) create_loop.simps) (auto simp: max_def)
  next
    case True
    let ?r = "CreateQueryPool_result env deviceIdx"
    let ?s' = "\<lparr>st_palResult = ?r, st_result = PalToVkResult ?r,
                st_pPalQueryPools = (if ?r = PalSuccess then (st_pPalQueryPools s)(deviceIdx := True)
                                     else st_pPalQueryPools s),
                st_world = do_CreateQueryPool deviceIdx ?r (st_world s)\<rparr>"
    have step: "create_loop PalToVkResult env deviceIdx s = create_loop PalToVkResult env (Suc deviceIdx) ?s'"
      by (subst create_loop.simps) (simp add: True Let_def)
    have p1: "st_pPalQueryPools ?s' = (\<lambda>d. d \<in> palObjects (st_world ?s'))"
      using "1.prems"(1) by (auto simp: do_CreateQueryPool_def fun_eq_iff)
    have p2: "\<forall>d \<in> palObjects (st_world ?s'). d < Suc deviceIdx"
      using "1.prems"(2) by (auto simp: do_CreateQueryPool_def less_Suc_eq)
    have m: "max (Suc deviceIdx) (NumPalDevices env) = max deviceIdx (NumPalDevices env)"
      using True by (simp add: max_def)
    from "1.IH"[OF True refl p1 p2] show ?thesis
      unfolding step m by (simp add: do_CreateQueryPool_def)
  qed
qed

lemma create_loop_run:
  assumes "st_palResult s = PalSuccess"
    and "deviceIdx \<le> m" and "m \<le> NumPalDevices env"
    and "\<forall>d. deviceIdx \<le> d \<and> d < m \<longrightarrow> CreateQueryPool_result env d = PalSuccess"
    and "m < NumPalDevices env \<longrightarrow> CreateQueryPool_result env m \<noteq> PalSuccess"
  shows "calls (st_world (create_loop PalToVkResult env deviceIdx s)) =
           calls (st_world s) @
           map CallCreateQueryPool [deviceIdx..<(if m < NumPalDevices env then Suc m else m)] \<and>
         palObjects (st_world (create_loop PalToVkResult env deviceIdx s)) =
           palObjects (st_world s) \<union> {deviceIdx..<m} \<and>
         st_result (create_loop PalToVkResult env deviceIdx s) =
           (if m < NumPalDevices env then PalToVkResult (CreateQueryPool_result env m)
            else if deviceIdx < m then PalToVkResult PalSuccess else st_result s)"
  using assms
proof (induction PalToVkResult env deviceIdx s rule: create_loop.induct)
  case (1 PalToVkResult env deviceIdx s)
  show ?case
  proof (cases "deviceIdx < NumPalDevices env")
    case False
    with "1.prems" have "m = deviceIdx" "\<not> m < NumPalDevices env" by simp_all
    with False show ?thesis by (subst (1 2 3) create_loop.simps) simp
  next
    case True
    let ?r = "CreateQueryPool_result env deviceIdx"
    let ?s' = "\<lparr>st_palResult = ?r, st_result = PalToVkResult ?r,
                st_pPalQueryPools = (if ?r = PalSuccess then (st_pPalQueryPools s)(deviceIdx := True)
                                     else st_pPalQueryPools s),
                st_world = do_CreateQueryPool deviceIdx ?r (st_world s)\<rparr>"
    have step: "create_loop PalToVkResult env deviceIdx s = create_loop PalToVkResult env (Suc deviceIdx) ?s'"
      by (subst create_loop.simps) (simp add: True "1.prems"(1) Let_def)
    show ?thesis
    proof (cases "deviceIdx = m")
      case here: True
      with True "1.prems"(5) have fail: "?r \<noteq> PalSuccess" by simp
      have stop: "create_loop PalToVkResult env (Suc deviceIdx) ?s' = ?s'"
        by (subst create_loop.simps) (simp add: fail)
      show ?thesis unfolding step stop using here True fail
        by (simp add: do_CreateQueryPool_def)
    next
      case False
      with "1.prems"(2) have lt: "deviceIdx < m" by simp
      with "1.prems"(4) have ok: "?r = PalSuccess" by simp
      have ih: "calls (st_world (create_loop PalToVkResult env (Suc deviceIdx) ?s')) =
           calls (st_world ?s') @
           map CallCreateQueryPool [Suc deviceIdx..<(if m < NumPalDevices env then Suc m else m)] \<and>
         palObjects (st_world (create_loop PalToVkResult env (Suc deviceIdx) ?s')) =
           palObjects (st_world ?s') \<union> {Suc deviceIdx..<m} \<and>
         st_result (create_loop PalToVkResult env (Suc deviceIdx) ?s') =
           (if m < NumPalDevices env then PalToVkResult (CreateQueryPool_result env m)
            else if Suc deviceIdx < m then PalToVkResult PalSuccess else st_result ?s')"
        using "1.prems" lt ok True
        by (intro "1.IH"[OF _ refl]) (simp_all add: "1.prems"(1))
      have upt: "[deviceIdx..<(if m < NumPalDevices env then Suc m else m)] =
                 deviceIdx # [Suc deviceIdx..<(if m < NumPalDevices env then Suc m else m)]"
        using lt by (intro upt_conv_Cons) simp
      have set: "{deviceIdx..<m} = insert deviceIdx {Suc deviceIdx..<m}"
        using lt by auto
      show ?thesis unfolding step using ih ok lt
        by (simp add: do_CreateQueryPool_def upt set)
    qed
  qed
qed

lemma Create_unfold:
  fixes PalToVkResult :: "PalResult \<Rightarrow> VkResult" and env :: create_env and queryType :: VkQueryType
  assumes "AllocApiObject_ok env"
  defines "w1 \<equiv> do_AllocApiObject True initial_world"
  defines "s \<equiv> create_loop PalToVkResult env 0
                   \<lparr>st_palResult = GetQueryPoolSize_result env, st_result = VK_SUCCESS,
                    st_pPalQueryPools = (\<lambda>i. False), st_world = w1\<rparr>"
  defines "r2 \<equiv> (if st_result s = VK_SUCCESS then AllocAndBindGpuMem_result env else st_result s)"
  defines "w2 \<equiv> (if st_result s = VK_SUCCESS
                   then do_AllocAndBindGpuMem (AllocAndBindGpuMem_result env) (st_world s)
                   else st_world s)"
  shows "PalQueryPool_Create PalToVkResult env queryType initial_world =
           (if r2 = VK_SUCCESS
            then (r2, Some \<lparr>m_queryType = queryType, m_pPalQueryPool = st_pPalQueryPools s\<rparr>,
                  do_call CallPlacementNew w2)
            else (r2, None,
                  do_FreeApiObject (destroy_loop (NumPalDevices env) (st_pPalQueryPools s) 0 w2)))"
  using assms(1) unfolding PalQueryPool_Create_def Let_def w1_def s_def r2_def w2_def
  by (simp only: if_False if_True simp_thms)

lemma Create_loop_state:
  fixes PalToVkResult :: "PalResult \<Rightarrow> VkResult" and env :: create_env
  defines "w1 \<equiv> do_AllocApiObject True initial_world"
  defines "s0 \<equiv> \<lparr>st_palResult = GetQueryPoolSize_result env, st_result = VK_SUCCESS,
                    st_pPalQueryPools = (\<lambda>i. False), st_world = w1\<rparr>"
  shows "st_pPalQueryPools (create_loop PalToVkResult env 0 s0) =
           (\<lambda>d. d \<in> palObjects (st_world (create_loop PalToVkResult env 0 s0)))"
    and "\<forall>d \<in> palObjects (st_world (create_loop PalToVkResult env 0 s0)). d < NumPalDevices env"
    and "hostBlock (st_world (create_loop PalToVkResult env 0 s0))"
    and "\<not> gpuMem (st_world (create_loop PalToVkResult env 0 s0))"
proof -
  have a: "st_pPalQueryPools s0 = (\<lambda>d. d \<in> palObjects (st_world s0))"
    by (simp add: s0_def w1_def do_AllocApiObject_def initial_world_def)
  have b: "\<forall>d \<in> palObjects (st_world s0). d < 0"
    by (simp add: s0_def w1_def do_AllocApiObject_def initial_world_def)
  note inv = create_loop_inv[OF a b, of PalToVkResult env]
  show "st_pPalQueryPools (create_loop PalToVkResult env 0 s0) =
           (\<lambda>d. d \<in> palObjects (st_world (create_loop PalToVkResult env 0 s0)))"
    using inv by blast
  show "\<forall>d \<in> palObjects (st_world (create_loop PalToVkResult env 0 s0)). d < NumPalDevices env"
    using inv by simp
  show "hostBlock (st_world (create_loop PalToVkResult env 0 s0))"
    using inv by (simp add: s0_def w1_def do_AllocApiObject_def)
  show "\<not> gpuMem (st_world (create_loop PalToVkResult env 0 s0))"
    using inv by (simp add: s0_def w1_def do_AllocApiObject_def initial_world_def)
qed

lemma Create_failure_clean:
  assumes "fst (PalQueryPool_Create PalToVkResult env queryType initial_world) \<noteq> VK_SUCCESS"
  shows "fst (snd (PalQueryPool_Create PalToVkResult env queryType initial_world)) = None \<and>
         \<not> hostBlock (snd (snd (PalQueryPool_Create PalToVkResult env queryType initial_world))) \<and>
         palObjects (snd (snd (PalQueryPool_Create PalToVkResult env queryType initial_world))) = {} \<and>
         \<not> gpuMem (snd (snd (PalQueryPool_Create PalToVkResult env queryType initial_world)))"
proof (cases "AllocApiObject_ok env")
  case False
  then show ?thesis
    by (simp add: PalQueryPool_Create_def Let_def do_AllocApiObject_def initial_world_def)
next
  case True
  let ?s = "create_loop PalToVkResult env 0
                   \<lparr>st_palResult = GetQueryPoolSize_result env, st_result = VK_SUCCESS,
                    st_pPalQueryPools = (\<lambda>i. False), st_world = do_AllocApiObject True initial_world\<rparr>"
  let ?r2 = "if st_result ?s = VK_SUCCESS then AllocAndBindGpuMem_result env else st_result ?s"
  let ?w2 = "if st_result ?s = VK_SUCCESS
             then do_AllocAndBindGpuMem (AllocAndBindGpuMem_result env) (st_world ?s)
             else st_world ?s"
  note u = Create_unfold[OF True, of PalToVkResult queryType]
  note st = Create_loop_state[of PalToVkResult env]
  from assms have fail: "?r2 \<noteq> VK_SUCCESS" unfolding u by (simp split: if_splits)
  have res: "PalQueryPool_Create PalToVkResult env queryType initial_world =
      (?r2, None, do_FreeApiObject (destroy_loop (NumPalDevices env) (st_pPalQueryPools ?s) 0 ?w2))"
    unfolding u using fail by (simp only: if_False)
  have obj: "palObjects ?w2 = palObjects (st_world ?s)"
    by (simp add: do_AllocAndBindGpuMem_def)
  have gpu: "\<not> gpuMem ?w2"
    using fail st(4) by (auto simp: do_AllocAndBindGpuMem_def split: if_splits)
  have all: "palObjects (st_world ?s) - {d. 0 \<le> d \<and> d < NumPalDevices env \<and> st_pPalQueryPools ?s d} = {}"
    using st(2) by (subst st(1)) auto
  show ?thesis
    unfolding res
    using destroy_loop_fields[of "NumPalDevices env" "st_pPalQueryPools ?s" 0 ?w2] obj gpu all
    by (simp add: do_FreeApiObject_def)
qed

lemma Create_calls:
  fixes PalToVkResult :: "PalResult \<Rightarrow> VkResult" and env :: create_env and queryType :: VkQueryType
  assumes ok: "AllocApiObject_ok env"
    and size: "GetQueryPoolSize_result env = PalSuccess"
    and m: "m \<le> NumPalDevices env"
    and good: "\<forall>d. d < m \<longrightarrow> CreateQueryPool_result env d = PalSuccess"
    and stop: "m < NumPalDevices env \<longrightarrow> CreateQueryPool_result env m \<noteq> PalSuccess"
    and res: "res = (if m < NumPalDevices env then PalToVkResult (CreateQueryPool_result env m)
                     else if 0 < m then PalToVkResult PalSuccess else VK_SUCCESS)"
  shows "res \<noteq> VK_SUCCESS \<longrightarrow>
           fst (PalQueryPool_Create PalToVkResult env queryType initial_world) = res \<and>
           calls (snd (snd (PalQueryPool_Create PalToVkResult env queryType initial_world))) =
             [CallAllocApiObject] @
             map CallCreateQueryPool [0..<(if m < NumPalDevices env then Suc m else m)] @
             map CallDestroyQueryPool [0..<m] @ [CallFreeApiObject]"
    and "res = VK_SUCCESS \<longrightarrow> AllocAndBindGpuMem_result env \<noteq> VK_SUCCESS \<longrightarrow>
           fst (PalQueryPool_Create PalToVkResult env queryType initial_world) = AllocAndBindGpuMem_result env \<and>
           calls (snd (snd (PalQueryPool_Create PalToVkResult env queryType initial_world))) =
             [CallAllocApiObject] @
             map CallCreateQueryPool [0..<(if m < NumPalDevices env then Suc m else m)] @
             [CallAllocAndBindGpuMem] @
             map CallDestroyQueryPool [0..<m] @ [CallFreeApiObject]"
    and "res = VK_SUCCESS \<longrightarrow> AllocAndBindGpuMem_result env = VK_SUCCESS \<longrightarrow>
           fst (PalQueryPool_Create PalToVkResult env queryType initial_world) = VK_SUCCESS \<and>
           fst (snd (PalQueryPool_Create PalToVkResult env queryType initial_world)) =
             Some \<lparr>m_queryType = queryType, m_pPalQueryPool = (\<lambda>d. d < m)\<rparr> \<and>
           hostBlock (snd (snd (PalQueryPool_Create PalToVkResult env queryType initial_world))) \<and>
           palObjects (snd (snd (PalQueryPool_Create PalToVkResult env queryType initial_world))) = {0..<m} \<and>
           gpuMem (snd (snd (PalQueryPool_Create PalToVkResult env queryType initial_world)))"
proof -
  let ?ini = "\<lparr>st_palResult = GetQueryPoolSize_result env, st_result = VK_SUCCESS,
              st_pPalQueryPools = (\<lambda>i. False), st_world = do_AllocApiObject True initial_world\<rparr>"
  let ?s = "create_loop PalToVkResult env 0 ?ini"
  let ?w2 = "if st_result ?s = VK_SUCCESS
             then do_AllocAndBindGpuMem (AllocAndBindGpuMem_result env) (st_world ?s)
             else st_world ?s"
  note u = Create_unfold[OF ok, of PalToVkResult queryType]
  note st = Create_loop_state[of PalToVkResult env]
  have run: "calls (st_world ?s) = calls (st_world ?ini) @
               map CallCreateQueryPool [0..<(if m < NumPalDevices env then Suc m else m)] \<and>
             palObjects (st_world ?s) = palObjects (st_world ?ini) \<union> {0..<m} \<and>
             st_result ?s = (if m < NumPalDevices env then PalToVkResult (CreateQueryPool_result env m)
                             else if 0 < m then PalToVkResult PalSuccess else st_result ?ini)"
    using size m good stop by (intro create_loop_run) simp_all
  then have c: "calls (st_world ?s) =
               [CallAllocApiObject] @ map CallCreateQueryPool [0..<(if m < NumPalDevices env then Suc m else m)]"
    and p: "palObjects (st_world ?s) = {0..<m}"
    and r: "st_result ?s = res"
    by (simp_all add: do_AllocApiObject_def initial_world_def res)
  have pools: "st_pPalQueryPools ?s = (\<lambda>d. d < m)"
    unfolding st(1) p by auto
  have filt: "filter (\<lambda>d. d < m) [0..<NumPalDevices env] = [0..<m]"
  proof -
    have "[0..<NumPalDevices env] = [0..<m] @ [m..<NumPalDevices env]"
      using m upt_add_eq_append[of 0 m "NumPalDevices env - m"] by simp
    then show ?thesis by simp
  qed
  note dl = destroy_loop_fields[of "NumPalDevices env" "\<lambda>d. d < m" 0, unfolded filt]
  show "res \<noteq> VK_SUCCESS \<longrightarrow>
           fst (PalQueryPool_Create PalToVkResult env queryType initial_world) = res \<and>
           calls (snd (snd (PalQueryPool_Create PalToVkResult env queryType initial_world))) =
             [CallAllocApiObject] @
             map CallCreateQueryPool [0..<(if m < NumPalDevices env then Suc m else m)] @
             map CallDestroyQueryPool [0..<m] @ [CallFreeApiObject]"
    unfolding u pools r using dl c r
    by (simp add: do_FreeApiObject_def)
  show "res = VK_SUCCESS \<longrightarrow> AllocAndBindGpuMem_result env \<noteq> VK_SUCCESS \<longrightarrow>
           fst (PalQueryPool_Create PalToVkResult env queryType initial_world) = AllocAndBindGpuMem_result env \<and>
           calls (snd (snd (PalQueryPool_Create PalToVkResult env queryType initial_world))) =
             [CallAllocApiObject] @
             map CallCreateQueryPool [0..<(if m < NumPalDevices env then Suc m else m)] @
             [CallAllocAndBindGpuMem] @
             map CallDestroyQueryPool [0..<m] @ [CallFreeApiObject]"
    unfolding u pools r using dl c r
    by (simp add: do_FreeApiObject_def do_AllocAndBindGpuMem_def)
  show "res = VK_SUCCESS \<longrightarrow> AllocAndBindGpuMem_result env = VK_SUCCESS \<longrightarrow>
           fst (PalQueryPool_Create PalToVkResult env queryType initial_world) = VK_SUCCESS \<and>
           fst (snd (PalQueryPool_Create PalToVkResult env queryType initial_world)) =
             Some \<lparr>m_queryType = queryType, m_pPalQueryPool = (\<lambda>d. d < m)\<rparr> \<and>
           hostBlock (snd (snd (PalQueryPool_Create PalToVkResult env queryType initial_world))) \<and>
           palObjects (snd (snd (PalQueryPool_Create PalToVkResult env queryType initial_world))) = {0..<m} \<and>
           gpuMem (snd (snd (PalQueryPool_Create PalToVkResult env queryType initial_world)))"
    unfolding u pools r using p st(3)
    by (simp add: do_call_def do_AllocAndBindGpuMem_def)
qed

text \<open>
  Claim C1.  \<open>PalQueryPool::Create\<close> is all-or-nothing.  Whenever it returns something
  other than \<open>VK_SUCCESS\<close>, no pool object is produced and nothing acquired during the
  call is still held: not the host block, no backend object, not the GPU memory.  When
  the construction of the backend object of replica \<open>k\<close> fails, the calls made are: the
  allocation of the host block, the constructions for replicas \<open>0..k\<close>, the destruction
  of the objects of replicas \<open>0..k-1\<close>, and then the release of the host block; the
  error of replica \<open>k\<close> is returned.  When all \<open>N\<close> constructions succeed and the
  allocate-and-bind of GPU memory fails, the objects of all \<open>N\<close> replicas are destroyed
  and then the host block is released; the error of the allocate-and-bind is returned.
  When every step succeeds, the pool object is produced and holds the host block, the
  \<open>N\<close> backend objects and the GPU memory.
\<close>

theorem PalQueryPool_Create_all_or_nothing:
  fixes PalToVkResult :: "PalResult \<Rightarrow> VkResult" and env :: create_env and queryType :: VkQueryType
  shows "case PalQueryPool_Create PalToVkResult env queryType initial_world of
           (result, pool, w) \<Rightarrow>
             (result \<noteq> VK_SUCCESS \<longrightarrow>
                pool = None \<and> \<not> hostBlock w \<and> palObjects w = {} \<and> \<not> gpuMem w) \<and>
             (AllocApiObject_ok env \<and> GetQueryPoolSize_result env = PalSuccess \<and>
              k < NumPalDevices env \<and>
              (\<forall>d. d < k \<longrightarrow> CreateQueryPool_result env d = PalSuccess) \<and>
              CreateQueryPool_result env k \<noteq> PalSuccess \<and>
              PalToVkResult (CreateQueryPool_result env k) \<noteq> VK_SUCCESS \<longrightarrow>
                result = PalToVkResult (CreateQueryPool_result env k) \<and>
                calls w = [CallAllocApiObject] @ map CallCreateQueryPool [0..<Suc k] @
                          map CallDestroyQueryPool [0..<k] @ [CallFreeApiObject]) \<and>
             (AllocApiObject_ok env \<and> GetQueryPoolSize_result env = PalSuccess \<and>
              (\<forall>d. d < NumPalDevices env \<longrightarrow> CreateQueryPool_result env d = PalSuccess) \<and>
              PalToVkResult PalSuccess = VK_SUCCESS \<and>
              AllocAndBindGpuMem_result env \<noteq> VK_SUCCESS \<longrightarrow>
                result = AllocAndBindGpuMem_result env \<and>
                calls w = [CallAllocApiObject] @ map CallCreateQueryPool [0..<NumPalDevices env] @
                          [CallAllocAndBindGpuMem] @
                          map CallDestroyQueryPool [0..<NumPalDevices env] @ [CallFreeApiObject]) \<and>
             (AllocApiObject_ok env \<and> GetQueryPoolSize_result env = PalSuccess \<and>
              (\<forall>d. d < NumPalDevices env \<longrightarrow> CreateQueryPool_result env d = PalSuccess) \<and>
              PalToVkResult PalSuccess = VK_SUCCESS \<and>
              AllocAndBindGpuMem_result env = VK_SUCCESS \<longrightarrow>
                result = VK_SUCCESS \<and>
                pool = Some \<lparr>m_queryType = queryType,
                             m_pPalQueryPool = (\<lambda>d. d < NumPalDevices env)\<rparr> \<and>
                hostBlock w \<and> palObjects w = {0..<NumPalDevices env} \<and> gpuMem w)"
proof -
  let ?c = "PalQueryPool_Create PalToVkResult env queryType initial_world"
  have p1: "fst ?c \<noteq> VK_SUCCESS \<longrightarrow>
              fst (snd ?c) = None \<and> \<not> hostBlock (snd (snd ?c)) \<and> palObjects (snd (snd ?c)) = {} \<and>
              \<not> gpuMem (snd (snd ?c))"
    using Create_failure_clean[of PalToVkResult env queryType] by blast
  have p2: "fst ?c = PalToVkResult (CreateQueryPool_result env k) \<and>
            calls (snd (snd ?c)) = [CallAllocApiObject] @ map CallCreateQueryPool [0..<Suc k] @
                          map CallDestroyQueryPool [0..<k] @ [CallFreeApiObject]"
    if ok: "AllocApiObject_ok env" and size: "GetQueryPoolSize_result env = PalSuccess"
      and k: "k < NumPalDevices env"
      and good: "\<forall>d. d < k \<longrightarrow> CreateQueryPool_result env d = PalSuccess"
      and bad: "CreateQueryPool_result env k \<noteq> PalSuccess"
      and err: "PalToVkResult (CreateQueryPool_result env k) \<noteq> VK_SUCCESS"
  proof -
    have le: "k \<le> NumPalDevices env" using k by simp
    have stop: "k < NumPalDevices env \<longrightarrow> CreateQueryPool_result env k \<noteq> PalSuccess"
      using bad by simp
    have res: "PalToVkResult (CreateQueryPool_result env k) =
                 (if k < NumPalDevices env then PalToVkResult (CreateQueryPool_result env k)
                  else if 0 < k then PalToVkResult PalSuccess else VK_SUCCESS)"
      using k by simp
    from Create_calls(1)[OF ok size le good stop res, of queryType] err k
    show ?thesis by simp
  qed
  have full: "VK_SUCCESS =
                 (if NumPalDevices env < NumPalDevices env
                  then PalToVkResult (CreateQueryPool_result env (NumPalDevices env))
                  else if 0 < NumPalDevices env then PalToVkResult PalSuccess else VK_SUCCESS)"
    if "PalToVkResult PalSuccess = VK_SUCCESS"
    using that by simp
  have p3: "fst ?c = AllocAndBindGpuMem_result env \<and>
            calls (snd (snd ?c)) = [CallAllocApiObject] @ map CallCreateQueryPool [0..<NumPalDevices env] @
                          [CallAllocAndBindGpuMem] @
                          map CallDestroyQueryPool [0..<NumPalDevices env] @ [CallFreeApiObject]"
    if ok: "AllocApiObject_ok env" and size: "GetQueryPoolSize_result env = PalSuccess"
      and good: "\<forall>d. d < NumPalDevices env \<longrightarrow> CreateQueryPool_result env d = PalSuccess"
      and conv: "PalToVkResult PalSuccess = VK_SUCCESS"
      and err: "AllocAndBindGpuMem_result env \<noteq> VK_SUCCESS"
  proof -
    have stop: "NumPalDevices env < NumPalDevices env \<longrightarrow>
                  CreateQueryPool_result env (NumPalDevices env) \<noteq> PalSuccess" by simp
    from Create_calls(2)[OF ok size order_refl good stop full[OF conv], of queryType] err
    show ?thesis by simp
  qed
  have p4: "fst ?c = VK_SUCCESS \<and>
            fst (snd ?c) = Some \<lparr>m_queryType = queryType,
                             m_pPalQueryPool = (\<lambda>d. d < NumPalDevices env)\<rparr> \<and>
            hostBlock (snd (snd ?c)) \<and> palObjects (snd (snd ?c)) = {0..<NumPalDevices env} \<and>
            gpuMem (snd (snd ?c))"
    if ok: "AllocApiObject_ok env" and size: "GetQueryPoolSize_result env = PalSuccess"
      and good: "\<forall>d. d < NumPalDevices env \<longrightarrow> CreateQueryPool_result env d = PalSuccess"
      and conv: "PalToVkResult PalSuccess = VK_SUCCESS"
      and fine: "AllocAndBindGpuMem_result env = VK_SUCCESS"
  proof -
    have stop: "NumPalDevices env < NumPalDevices env \<longrightarrow>
                  CreateQueryPool_result env (NumPalDevices env) \<noteq> PalSuccess" by simp
    from Create_calls(3)[OF ok size order_refl good stop full[OF conv], of queryType] fine
    show ?thesis by simp
  qed
  show ?thesis
    unfolding split_beta using p1 p2 p3 p4 by blast
qed

theorem PalQueryPool_Create_all_or_nothing_witness:
  "case PalQueryPool_Create
          (\<lambda>r. case r of PalSuccess \<Rightarrow> VK_SUCCESS
                        | PalNotReady \<Rightarrow> VK_NOT_READY
                        | PalErrorUnknown \<Rightarrow> VK_ERROR_INITIALIZATION_FAILED
                        | PalErrorOutOfMemory \<Rightarrow> VK_ERROR_OUT_OF_HOST_MEMORY
                        | PalErrorOutOfGpuMemory \<Rightarrow> VK_ERROR_OUT_OF_DEVICE_MEMORY)
          \<lparr>NumPalDevices = 3, GetQueryPoolSize_result = PalSuccess, AllocApiObject_ok = True,
           CreateQueryPool_result = (\<lambda>d. if d < 2 then PalSuccess else PalErrorOutOfMemory),
           AllocAndBindGpuMem_result = VK_SUCCESS\<rparr>
          VK_QUERY_TYPE_OCCLUSION initial_world of
     (result, pool, w) \<Rightarrow>
        result = VK_ERROR_OUT_OF_HOST_MEMORY \<and> pool = None \<and>
        \<not> hostBlock w \<and> palObjects w = {} \<and> \<not> gpuMem w \<and>
        calls w = [CallAllocApiObject, CallCreateQueryPool 0, CallCreateQueryPool 1,
                   CallCreateQueryPool 2, CallDestroyQueryPool 0, CallDestroyQueryPool 1,
                   CallFreeApiObject]"
  using PalQueryPool_Create_all_or_nothing
          [where PalToVkResult = "(\<lambda>r. case r of PalSuccess \<Rightarrow> VK_SUCCESS
                        | PalNotReady \<Rightarrow> VK_NOT_READY
                        | PalErrorUnknown \<Rightarrow> VK_ERROR_INITIALIZATION_FAILED
                        | PalErrorOutOfMemory \<Rightarrow> VK_ERROR_OUT_OF_HOST_MEMORY
                        | PalErrorOutOfGpuMemory \<Rightarrow> VK_ERROR_OUT_OF_DEVICE_MEMORY)"
             and env = "\<lparr>NumPalDevices = 3, GetQueryPoolSize_result = PalSuccess, AllocApiObject_ok = True,
           CreateQueryPool_result = (\<lambda>d. if d < 2 then PalSuccess else PalErrorOutOfMemory),
           AllocAndBindGpuMem_result = VK_SUCCESS\<rparr>"
             and queryType = VK_QUERY_TYPE_OCCLUSION and k = 2]
  by (simp add: split_beta upt_rec numeral_2_eq_2)

end
